theory Spec2Isabelle
  imports Complex_Main "HOL-Library.Multiset" "HOL-Library.Product_Lexorder"
begin

section \<open>Data model (database.py)\<close>

text \<open>
  A \<open>datetime\<close> is modelled as an integer number of microseconds (the resolution of
  Python's \<open>datetime\<close>); \<open>timedelta(seconds=n)\<close> is \<open>seconds n\<close>. A Python
  \<open>float\<close> (confidence, quality score) is modelled as a real number; NaN is excluded.
\<close>

type_synonym time = int

definition seconds :: "int \<Rightarrow> int" where
  "seconds n = n * 1000000"

record walker =
  w_id :: int
  w_first_seen :: time
  w_last_seen :: time
  w_total_walks :: int

record detection =
  d_id :: int
  d_walker_id :: int
  d_camera :: string
  d_zone :: string
  d_path_name :: string
  d_timestamp :: time
  d_event_type :: string
  d_has_dog :: bool
  d_person_confidence :: "real option"
  d_dog_confidence :: "real option"

record walker_image =
  i_id :: int
  i_walker_id :: int
  i_image_path :: string
  i_image_type :: string
  i_timestamp :: time
  i_camera :: string
  i_quality_score :: real

record walk_session =
  ws_id :: int
  ws_walker_id :: int
  ws_start_time :: time
  ws_end_time :: "time option"
  ws_cameras_visited :: string
  ws_paths_taken :: string
  ws_has_dog :: bool

text \<open>One dictionary of \<open>WalkerTracker.recent_detections\<close>.\<close>

record evidence =
  e_walker_id :: int
  e_camera :: string
  e_timestamp :: time
  e_has_dog :: bool

text \<open>
  The state a \<open>WalkerTracker\<close> works on: the four tables of the database session (rows in
  table order), the image files on disk (the paths that exist) and the in-memory list
  \<open>recent_detections\<close>. The dictionary \<open>active_sessions\<close> is never read or written
  after construction and is left out.
\<close>

record tracker =
  walkers :: "walker list"
  detections :: "detection list"
  walker_images :: "walker_image list"
  walk_sessions :: "walk_session list"
  files :: "string set"
  recent_detections :: "evidence list"

record camera_config =
  cc_zone :: string
  cc_path_name :: string

text \<open>The keys of \<open>config.yaml\<close> that tracker.py and main.py read.\<close>

record config =
  cross_camera_window :: int
  max_images_per_walker :: int
  min_person_confidence :: real
  cameras :: "string \<rightharpoonup> camera_config"

datatype error = AttributeError

text \<open>
  The primary key the database gives a new row (an \<open>Integer\<close> primary key on SQLite):
  one more than the largest key in the table, 1 for an empty table.
\<close>

definition next_id :: "int list \<Rightarrow> int" where
  "next_id ks = (case ks of [] \<Rightarrow> 1 | k # ks' \<Rightarrow> fold max ks' k + 1)"

text \<open>
  \<open>query(...).filter(...).first()\<close> followed by assignments to the returned object: the
  first row (in table order) that satisfies the filter is changed in place.
\<close>

fun update_first :: "('a \<Rightarrow> bool) \<Rightarrow> ('a \<Rightarrow> 'a) \<Rightarrow> 'a list \<Rightarrow> 'a list" where
  "update_first P f [] = []"
| "update_first P f (x # xs) = (if P x then f x # xs else x # update_first P f xs)"

section \<open>The identity matcher (tracker.py)\<close>

text \<open>
  The loop of \<open>_match_to_walker\<close> over \<open>reversed(self.recent_detections)\<close>. The
  readings of \<open>datetime.utcnow()\<close> during one call are taken to be one time \<open>now\<close>,
  but for the second of the two readings that fill a new walker row (see
  \<open>resolve_walker\<close>). \<open>time_diff > 60\<close> compares \<open>total_seconds()\<close> of the
  difference with 60.
\<close>

fun match_scan :: "time \<Rightarrow> time \<Rightarrow> string \<Rightarrow> bool \<Rightarrow> evidence list \<Rightarrow> int option" where
  "match_scan now cutoff_time camera has_dog [] = None"
| "match_scan now cutoff_time camera has_dog (d # ds) =
     (if e_timestamp d < cutoff_time then match_scan now cutoff_time camera has_dog ds
      else if e_has_dog d = has_dog then
        (if e_camera d \<noteq> camera then Some (e_walker_id d)
         else if now - e_timestamp d > seconds 60 then Some (e_walker_id d)
         else match_scan now cutoff_time camera has_dog ds)
      else match_scan now cutoff_time camera has_dog ds)"

definition match_to_walker ::
  "config \<Rightarrow> tracker \<Rightarrow> time \<Rightarrow> string \<Rightarrow> string \<Rightarrow> bool \<Rightarrow> int option" where
  "match_to_walker cfg s now camera zone has_dog =
     match_scan now (now - seconds (cross_camera_window cfg)) camera has_dog
       (rev (recent_detections s))"

definition clean_recent_detections :: "config \<Rightarrow> time \<Rightarrow> tracker \<Rightarrow> tracker" where
  "clean_recent_detections cfg now s =
     s\<lparr>recent_detections :=
         filter (\<lambda>d. e_timestamp d \<ge> now - seconds (cross_camera_window cfg))
           (recent_detections s)\<rparr>"

section \<open>Walk sessions\<close>

text \<open>Python's \<open>str.split(',')\<close> and \<open>','.join\<close>.\<close>

fun split_comma :: "string \<Rightarrow> string list" where
  "split_comma [] = [[]]"
| "split_comma (c # cs) =
     (if c = CHR '','' then [] # split_comma cs
      else (case split_comma cs of [] \<Rightarrow> [[c]] | p # ps \<Rightarrow> (c # p) # ps))"

fun join_comma :: "string list \<Rightarrow> string" where
  "join_comma [] = []"
| "join_comma [x] = x"
| "join_comma (x # y # ys) = x @ '','' @ join_comma (y # ys)"

text \<open>
  \<open>set(old.split(',') if old else [])\<close>, \<open>.add(name)\<close>, \<open>','.join(...)\<close>. Python does not
  fix the order in which a set is iterated; the model keeps the order of first occurrence
  and puts a new name last. No theorem below depends on that order.
\<close>

definition add_name :: "string \<Rightarrow> string \<Rightarrow> string" where
  "add_name old name =
     (let names = remdups (rev (if old \<noteq> [] then split_comma old else []))
      in join_comma (rev (if name \<in> set names then names else name # names)))"

definition is_open_for :: "int \<Rightarrow> walk_session \<Rightarrow> bool" where
  "is_open_for walker_id ss = (ws_walker_id ss = walker_id \<and> ws_end_time ss = None)"

definition update_walk_session ::
  "time \<Rightarrow> int \<Rightarrow> string \<Rightarrow> string \<Rightarrow> bool \<Rightarrow> tracker \<Rightarrow> tracker" where
  "update_walk_session now walker_id camera path_name has_dog s =
     (case find (is_open_for walker_id) (walk_sessions s) of
        Some active \<Rightarrow>
          s\<lparr>walk_sessions :=
              update_first (is_open_for walker_id)
                (\<lambda>a. a\<lparr>ws_cameras_visited := add_name (ws_cameras_visited a) camera,
                        ws_paths_taken := add_name (ws_paths_taken a) path_name,
                        ws_has_dog := (ws_has_dog a \<or> has_dog)\<rparr>)
                (walk_sessions s)\<rparr>
      | None \<Rightarrow>
          s\<lparr>walk_sessions := walk_sessions s @
              [\<lparr>ws_id = next_id (map ws_id (walk_sessions s)),
                ws_walker_id = walker_id,
                ws_start_time = now,
                ws_end_time = None,
                ws_cameras_visited = camera,
                ws_paths_taken = path_name,
                ws_has_dog = has_dog\<rparr>]\<rparr>)"

definition close_session :: "time \<Rightarrow> int \<Rightarrow> tracker \<Rightarrow> tracker" where
  "close_session now walker_id s =
     (case find (is_open_for walker_id) (walk_sessions s) of
        Some session \<Rightarrow>
          s\<lparr>walk_sessions :=
              update_first (is_open_for walker_id) (\<lambda>a. a\<lparr>ws_end_time := Some now\<rparr>)
                (walk_sessions s)\<rparr>
      | None \<Rightarrow> s)"

section \<open>Processing a detection\<close>

text \<open>
  Lines 36 to 54 of \<open>process_detection\<close>: match the detection to a walker, create the
  walker row when nothing matches, update \<open>last_seen\<close> when something does. A new row
  takes its two times from two readings of the clock, one after the other: \<open>first_seen\<close>
  from line 41 (\<open>now\<close>) and \<open>last_seen\<close> from line 42 (\<open>now'\<close>); the two need not
  be equal. On a match the walker row is looked up with \<open>.first()\<close>; when there is no
  such row the assignment to \<open>walker.last_seen\<close> raises \<open>AttributeError\<close>, before
  anything has been written.
\<close>

definition resolve_walker ::
  "config \<Rightarrow> tracker \<Rightarrow> time \<Rightarrow> time \<Rightarrow> string \<Rightarrow> string \<Rightarrow> bool
     \<Rightarrow> error + (tracker \<times> int)" where
  "resolve_walker cfg s now now' camera zone has_dog =
     (case match_to_walker cfg s now camera zone has_dog of
        None \<Rightarrow>
          let walker_id = next_id (map w_id (walkers s)) in
          Inr (s\<lparr>walkers := walkers s @
                   [\<lparr>w_id = walker_id, w_first_seen = now, w_last_seen = now',
                     w_total_walks = 1\<rparr>]\<rparr>, walker_id)
      | Some walker_id \<Rightarrow>
          (case find (\<lambda>w. w_id w = walker_id) (walkers s) of
             None \<Rightarrow> Inl AttributeError
           | Some walker \<Rightarrow>
               Inr (s\<lparr>walkers := update_first (\<lambda>w. w_id w = walker_id)
                                   (\<lambda>w. w\<lparr>w_last_seen := now\<rparr>) (walkers s)\<rparr>,
                    walker_id)))"

text \<open>
  Lines 56 to 83: append the detection row and the evidence entry, prune the evidence
  list, update the walk session.
\<close>

definition record_detection ::
  "config \<Rightarrow> time \<Rightarrow> int \<Rightarrow> string \<Rightarrow> string \<Rightarrow> string \<Rightarrow> bool \<Rightarrow> real \<Rightarrow> real
     \<Rightarrow> tracker \<Rightarrow> tracker" where
  "record_detection cfg now walker_id camera zone path_name has_dog
       person_confidence dog_confidence s1 =
     (let s2 = s1\<lparr>detections := detections s1 @
                 [\<lparr>d_id = next_id (map d_id (detections s1)),
                   d_walker_id = walker_id,
                   d_camera = camera,
                   d_zone = zone,
                   d_path_name = path_name,
                   d_timestamp = now,
                   d_event_type = ''enter'',
                   d_has_dog = has_dog,
                   d_person_confidence = Some person_confidence,
                   d_dog_confidence = (if has_dog then Some dog_confidence else None)\<rparr>]\<rparr>;
          s3 = s2\<lparr>recent_detections := recent_detections s2 @
                 [\<lparr>e_walker_id = walker_id, e_camera = camera,
                   e_timestamp = now, e_has_dog = has_dog\<rparr>]\<rparr>;
          s4 = clean_recent_detections cfg now s3
      in update_walk_session now walker_id camera path_name has_dog s4)"

text \<open>
  \<open>process_detection\<close> returns the new state and the value it returns (\<open>None\<close> when no
  person is present).
\<close>

definition process_detection ::
  "config \<Rightarrow> tracker \<Rightarrow> time \<Rightarrow> time \<Rightarrow> string \<Rightarrow> string \<Rightarrow> string \<Rightarrow> bool \<Rightarrow> bool
     \<Rightarrow> real \<Rightarrow> real \<Rightarrow> error + (tracker \<times> int option)" where
  "process_detection cfg s now now' camera zone path_name has_person has_dog
       person_confidence dog_confidence =
     (if \<not> has_person then Inr (s, None)
      else
        case resolve_walker cfg s now now' camera zone has_dog of
          Inl e \<Rightarrow> Inl e
        | Inr (s1, walker_id) \<Rightarrow>
            Inr (record_detection cfg now walker_id camera zone path_name has_dog
                   person_confidence dog_confidence s1,
                 Some walker_id))"

definition record_exit :: "time \<Rightarrow> int \<Rightarrow> string \<Rightarrow> string \<Rightarrow> string \<Rightarrow> tracker \<Rightarrow> tracker" where
  "record_exit now walker_id camera zone path_name s =
     s\<lparr>detections := detections s @
         [\<lparr>d_id = next_id (map d_id (detections s)),
           d_walker_id = walker_id,
           d_camera = camera,
           d_zone = zone,
           d_path_name = path_name,
           d_timestamp = now,
           d_event_type = ''leave'',
           d_has_dog = False,
           d_person_confidence = None,
           d_dog_confidence = None\<rparr>]\<rparr>"

section \<open>Image retention\<close>

text \<open>
  \<open>order_by(quality_score.desc(), timestamp.desc())\<close>: ascending in the negated pair,
  compared lexicographically. Rows that agree on both keep their table order.
\<close>

definition image_rank :: "walker_image \<Rightarrow> real \<times> int" where
  "image_rank img = (- i_quality_score img, - i_timestamp img)"

text \<open>Python's slice \<open>xs[m:]\<close>, for a start index of either sign.\<close>

definition slice_from :: "int \<Rightarrow> 'a list \<Rightarrow> 'a list" where
  "slice_from m xs =
     (if m \<ge> 0 then drop (nat m) xs else drop (nat (int (length xs) + m)) xs)"

text \<open>One round of the loop of \<open>_cleanup_old_images\<close>: remove the file, delete the row.\<close>

definition delete_image :: "walker_image \<Rightarrow> tracker \<Rightarrow> tracker" where
  "delete_image img s =
     s\<lparr>files := (if i_image_path img \<in> files s then files s - {i_image_path img}
                  else files s),
       walker_images := filter (\<lambda>i. i_id i \<noteq> i_id img) (walker_images s)\<rparr>"

definition ranked_images :: "int \<Rightarrow> tracker \<Rightarrow> walker_image list" where
  "ranked_images walker_id s =
     sort_key image_rank (filter (\<lambda>i. i_walker_id i = walker_id) (walker_images s))"

definition cleanup_old_images :: "int \<Rightarrow> int \<Rightarrow> tracker \<Rightarrow> tracker" where
  "cleanup_old_images walker_id max_images s =
     (let images = ranked_images walker_id s
      in if int (length images) > max_images
         then fold delete_image (slice_from max_images images) s
         else s)"

definition new_image ::
  "tracker \<Rightarrow> time \<Rightarrow> int \<Rightarrow> string \<Rightarrow> string \<Rightarrow> string \<Rightarrow> real \<Rightarrow> walker_image" where
  "new_image s now walker_id image_path image_type camera quality_score =
     \<lparr>i_id = next_id (map i_id (walker_images s)),
      i_walker_id = walker_id,
      i_image_path = image_path,
      i_image_type = image_type,
      i_timestamp = now,
      i_camera = camera,
      i_quality_score = quality_score\<rparr>"

definition save_walker_image ::
  "config \<Rightarrow> time \<Rightarrow> int \<Rightarrow> string \<Rightarrow> string \<Rightarrow> string \<Rightarrow> real \<Rightarrow> tracker \<Rightarrow> tracker" where
  "save_walker_image cfg now walker_id image_path image_type camera quality_score s =
     cleanup_old_images walker_id (max_images_per_walker cfg)
       (s\<lparr>walker_images := walker_images s @
            [new_image s now walker_id image_path image_type camera quality_score]\<rparr>)"

section \<open>The ingestion adapter (main.py)\<close>

text \<open>
  The JSON payload of a count topic. \<open>isinstance(payload, int)\<close> holds for integers and
  for booleans (\<open>True\<close> counts as 1).
\<close>

datatype payload = PInt int | PBool bool | POther

definition payload_count :: "payload \<Rightarrow> int" where
  "payload_count p = (case p of PInt n \<Rightarrow> n | PBool b \<Rightarrow> (if b then 1 else 0) | POther \<Rightarrow> 0)"

text \<open>
  \<open>_capture_latest_frame\<close>: \<open>frame\<close> is the outcome of the download by the Frigate client,
  \<open>Some save_path\<close> when the frame was written to \<open>save_path\<close> (the file name the adapter
  builds from walker id, camera and wall-clock time), \<open>None\<close> when the download failed.
\<close>

definition capture_latest_frame ::
  "config \<Rightarrow> time \<Rightarrow> int \<Rightarrow> string \<Rightarrow> string \<Rightarrow> string option \<Rightarrow> tracker \<Rightarrow> tracker" where
  "capture_latest_frame cfg now walker_id camera image_type frame s =
     (case frame of
        None \<Rightarrow> s
      | Some save_path \<Rightarrow>
          save_walker_image cfg now walker_id save_path image_type camera (7 / 10)
            (s\<lparr>files := insert save_path (files s)\<rparr>))"

text \<open>\<open>DogWalkerTrackerApp._process_detection\<close>.\<close>

definition app_process_detection ::
  "config \<Rightarrow> tracker \<Rightarrow> time \<Rightarrow> time \<Rightarrow> string \<Rightarrow> string \<Rightarrow> payload \<Rightarrow> string option
     \<Rightarrow> error + tracker" where
  "app_process_detection cfg s now now' camera object_type pl frame =
     (case cameras cfg camera of
        None \<Rightarrow> Inr s
      | Some camera_config \<Rightarrow>
          let zone = cc_zone camera_config;
              path_name = cc_path_name camera_config;
              count = payload_count pl
          in if object_type = ''person'' \<and> count > 0 then
               (case process_detection cfg s now now' camera zone path_name True False
                       (min_person_confidence cfg) 0 of
                  Inl e \<Rightarrow> Inl e
                | Inr (s', None) \<Rightarrow> Inr s'
                | Inr (s', Some walker_id) \<Rightarrow>
                    (if walker_id \<noteq> 0
                     then Inr (capture_latest_frame cfg now walker_id camera
                                 ''person'' frame s')
                     else Inr s'))
             else Inr s)"

text \<open>
  \<open>_handle_frigate_event\<close> calls \<open>_process_detection\<close> inside \<open>try ... except
  Exception\<close>: an exception is logged and the next event is handled. The only exception
  of the model is raised before any write, so the state is the one before the event.
\<close>

record event =
  ev_now :: time
  ev_now2 :: time
  ev_camera :: string
  ev_object_type :: string
  ev_payload :: payload
  ev_frame :: "string option"

fun app_run :: "config \<Rightarrow> tracker \<Rightarrow> event list \<Rightarrow> tracker" where
  "app_run cfg s [] = s"
| "app_run cfg s (ev # evs) =
     app_run cfg
       (case app_process_detection cfg s (ev_now ev) (ev_now2 ev) (ev_camera ev)
               (ev_object_type ev) (ev_payload ev) (ev_frame ev) of
          Inl e \<Rightarrow> s
        | Inr s' \<Rightarrow> s')
       evs"

section \<open>Sequences of calls\<close>

text \<open>
  The public operations of \<open>WalkerTracker\<close> that change state, as values, and a caller
  that makes them one after the other (section 5 of the specification: one stream of
  events, handled strictly in arrival order). The first exception ends the run. A
  \<open>Process_detection\<close> carries the two readings of the clock that \<open>process_detection\<close>
  takes.
\<close>

datatype call =
  Process_detection time time string string string bool bool real real
| Record_exit time int string string string
| Close_session time int
| Save_walker_image time int string string string real

fun exec_call :: "config \<Rightarrow> tracker \<Rightarrow> call \<Rightarrow> error + (tracker \<times> int option)" where
  "exec_call cfg s (Process_detection now now' camera zone path_name has_person has_dog pc dc) =
     process_detection cfg s now now' camera zone path_name has_person has_dog pc dc"
| "exec_call cfg s (Record_exit now walker_id camera zone path_name) =
     Inr (record_exit now walker_id camera zone path_name s, None)"
| "exec_call cfg s (Close_session now walker_id) =
     Inr (close_session now walker_id s, None)"
| "exec_call cfg s (Save_walker_image now walker_id image_path image_type camera q) =
     Inr (save_walker_image cfg now walker_id image_path image_type camera q s, None)"

fun exec_calls :: "config \<Rightarrow> tracker \<Rightarrow> call list \<Rightarrow> error + (tracker \<times> int option list)" where
  "exec_calls cfg s [] = Inr (s, [])"
| "exec_calls cfg s (c # cs) =
     (case exec_call cfg s c of
        Inl e \<Rightarrow> Inl e
      | Inr (s1, r) \<Rightarrow>
          (case exec_calls cfg s1 cs of
             Inl e \<Rightarrow> Inl e
           | Inr (s2, rs) \<Rightarrow> Inr (s2, r # rs)))"

text \<open>The values returned by a run, and the state it ends in.\<close>

definition returned :: "config \<Rightarrow> tracker \<Rightarrow> call list \<Rightarrow> error + int option list" where
  "returned cfg s cs = map_sum id snd (exec_calls cfg s cs)"

definition final_state :: "config \<Rightarrow> tracker \<Rightarrow> call list \<Rightarrow> error + tracker" where
  "final_state cfg s cs = map_sum id fst (exec_calls cfg s cs)"

section \<open>Invariants\<close>

text \<open>The number of open sessions (null end time) of a walker.\<close>

definition open_count :: "int \<Rightarrow> tracker \<Rightarrow> nat" where
  "open_count walker_id s = length (filter (is_open_for walker_id) (walk_sessions s))"

text \<open>
  What holds of the evidence list of a tracker that started with an empty list: every
  entry names a walker that has a row, and the entries of one walker agree on the dog flag.
\<close>

definition window_inv :: "tracker \<Rightarrow> bool" where
  "window_inv s =
     ((\<forall>e \<in> set (recent_detections s). e_walker_id e \<in> w_id ` set (walkers s)) \<and>
      (\<forall>e \<in> set (recent_detections s). \<forall>e' \<in> set (recent_detections s).
          e_walker_id e = e_walker_id e' \<longrightarrow> e_has_dog e = e_has_dog e'))"

section \<open>A concrete configuration\<close>

text \<open>
  A tracker that has just been constructed on an empty database, and a configuration
  with a cross-camera window of 300 seconds and at most two images per walker.
\<close>

definition fresh_tracker :: tracker where
  "fresh_tracker =
     \<lparr>walkers = [], detections = [], walker_images = [], walk_sessions = [],
      files = {}, recent_detections = []\<rparr>"

definition example_config :: config where
  "example_config =
     \<lparr>cross_camera_window = 300, max_images_per_walker = 2,
      min_person_confidence = 1 / 2,
      cameras = [''front'' \<mapsto> \<lparr>cc_zone = ''yard'', cc_path_name = ''north''\<rparr>,
                 ''back'' \<mapsto> \<lparr>cc_zone = ''garden'', cc_path_name = ''south''\<rparr>]\<rparr>"

text \<open>
  A person, without or with a dog, seen by a camera at a time given in seconds, the clock
  standing still during the call.
\<close>

definition seen :: "int \<Rightarrow> string \<Rightarrow> bool \<Rightarrow> call" where
  "seen t camera has_dog =
     Process_detection (seconds t) (seconds t) camera ''zone'' ''path'' True has_dog
       (1 / 2) (1 / 2)"

text \<open>The state of that tracker after one person without a dog at the front camera.\<close>

definition after_first :: tracker where
  "after_first =
     \<lparr>walkers = [\<lparr>w_id = 1, w_first_seen = 0, w_last_seen = 0, w_total_walks = 1\<rparr>],
      detections =
        [\<lparr>d_id = 1, d_walker_id = 1, d_camera = ''front'', d_zone = ''zone'',
          d_path_name = ''path'', d_timestamp = 0, d_event_type = ''enter'',
          d_has_dog = False, d_person_confidence = Some (1 / 2), d_dog_confidence = None\<rparr>],
      walker_images = [],
      walk_sessions =
        [\<lparr>ws_id = 1, ws_walker_id = 1, ws_start_time = 0, ws_end_time = None,
          ws_cameras_visited = ''front'', ws_paths_taken = ''path'', ws_has_dog = False\<rparr>],
      files = {},
      recent_detections =
        [\<lparr>e_walker_id = 1, e_camera = ''front'', e_timestamp = 0, e_has_dog = False\<rparr>]\<rparr>"

text \<open>
  The same state with a second walker and three stored images, two of walker 1 and one of
  walker 2, and their files.
\<close>

definition with_images :: tracker where
  "with_images =
     after_first\<lparr>walkers := walkers after_first @
         [\<lparr>w_id = 2, w_first_seen = seconds 1, w_last_seen = seconds 1, w_total_walks = 1\<rparr>],
       walker_images :=
       [\<lparr>i_id = 1, i_walker_id = 1, i_image_path = ''a.jpg'', i_image_type = ''person'',
         i_timestamp = seconds 1, i_camera = ''front'', i_quality_score = 1 / 2\<rparr>,
        \<lparr>i_id = 2, i_walker_id = 2, i_image_path = ''b.jpg'', i_image_type = ''person'',
         i_timestamp = seconds 1, i_camera = ''back'', i_quality_score = 1 / 10\<rparr>,
        \<lparr>i_id = 3, i_walker_id = 1, i_image_path = ''c.jpg'', i_image_type = ''person'',
         i_timestamp = seconds 2, i_camera = ''front'', i_quality_score = 9 / 10\<rparr>],
       files := {''a.jpg'', ''b.jpg'', ''c.jpg''}\<rparr>"

text \<open>No detection row and no evidence entry carries a dog.\<close>

definition no_dog :: "tracker \<Rightarrow> bool" where
  "no_dog s = (list_all (\<lambda>d. \<not> d_has_dog d) (detections s) \<and>
               list_all (\<lambda>e. \<not> e_has_dog e) (recent_detections s))"

section \<open>Basic facts\<close>

lemma fold_max_bounds: "(k::int) \<le> fold max ks k \<and> (\<forall>x \<in> set ks. x \<le> fold max ks k)"
proof (induction ks arbitrary: k)
  case Nil
  show ?case by simp
next
  case (Cons a ks)
  from Cons.IH [of "max a k"] show ?case by auto
qed

lemma next_id_above: "k \<in> set ks \<Longrightarrow> k < next_id ks"
  using fold_max_bounds by (cases ks) (fastforce simp: next_id_def)+

lemma next_id_fresh: "next_id ks \<notin> set ks"
  using next_id_above by blast

lemma match_scan_Some:
  "match_scan now cutoff camera has_dog ds = Some w \<Longrightarrow>
     \<exists>e \<in> set ds. e_walker_id e = w \<and> e_has_dog e = has_dog \<and> \<not> e_timestamp e < cutoff \<and>
        (e_camera e \<noteq> camera \<or> seconds 60 < now - e_timestamp e)"
  by (induction ds) (auto split: if_splits)

lemma match_to_walker_Some:
  "match_to_walker cfg s now camera zone has_dog = Some w \<Longrightarrow>
     \<exists>e \<in> set (recent_detections s). e_walker_id e = w \<and> e_has_dog e = has_dog"
  unfolding match_to_walker_def by (drule match_scan_Some) auto

lemma match_scan_all_stale:
  "\<forall>e \<in> set ds. e_timestamp e < cutoff \<Longrightarrow> match_scan now cutoff camera has_dog ds = None"
  by (induction ds) auto

lemma match_scan_same_flag:
  "match_scan now cutoff camera has_dog (filter (\<lambda>e. e_has_dog e = has_dog) ds) =
   match_scan now cutoff camera has_dog ds"
  by (induction ds) auto

lemma update_first_map_id: "(\<And>x. g (f x) = g x) \<Longrightarrow> map g (update_first P f xs) = map g xs"
  by (induction xs) auto

lemma update_first_image: "(\<And>x. g (f x) = g x) \<Longrightarrow> g ` set (update_first P f xs) = g ` set xs"
  using update_first_map_id [of g f P xs] by (metis set_map)

lemma update_walk_session_other [simp]:
  "walkers (update_walk_session now w c p d s) = walkers s"
  "detections (update_walk_session now w c p d s) = detections s"
  "walker_images (update_walk_session now w c p d s) = walker_images s"
  "files (update_walk_session now w c p d s) = files s"
  "recent_detections (update_walk_session now w c p d s) = recent_detections s"
  by (simp_all add: update_walk_session_def split: option.splits)

lemma clean_recent_detections_other [simp]:
  "walkers (clean_recent_detections cfg now s) = walkers s"
  "detections (clean_recent_detections cfg now s) = detections s"
  "walker_images (clean_recent_detections cfg now s) = walker_images s"
  "files (clean_recent_detections cfg now s) = files s"
  "walk_sessions (clean_recent_detections cfg now s) = walk_sessions s"
  by (simp_all add: clean_recent_detections_def)

lemma find_SomeD: "find P xs = Some x \<Longrightarrow> P x \<and> x \<in> set xs"
  by (induction xs) (auto split: if_splits)

lemma record_detection_fields [simp]:
  "walkers (record_detection cfg now w camera zone path has_dog pc dc s) = walkers s"
  "walker_images (record_detection cfg now w camera zone path has_dog pc dc s) = walker_images s"
  "files (record_detection cfg now w camera zone path has_dog pc dc s) = files s"
  "recent_detections (record_detection cfg now w camera zone path has_dog pc dc s) =
     filter (\<lambda>d. now - seconds (cross_camera_window cfg) \<le> e_timestamp d)
       (recent_detections s @
          [\<lparr>e_walker_id = w, e_camera = camera, e_timestamp = now, e_has_dog = has_dog\<rparr>])"
  by (simp_all add: record_detection_def Let_def clean_recent_detections_def)

lemma resolve_walker_fields:
  assumes "resolve_walker cfg s now now' camera zone has_dog = Inr (s1, w)"
  shows "recent_detections s1 = recent_detections s"
    and "detections s1 = detections s"
    and "walk_sessions s1 = walk_sessions s"
    and "walker_images s1 = walker_images s"
    and "files s1 = files s"
  using assms
  by (auto simp: resolve_walker_def Let_def split: option.splits)

lemma resolve_walker_None:
  assumes "match_to_walker cfg s now camera zone has_dog = None"
  shows "resolve_walker cfg s now now' camera zone has_dog =
           Inr (s\<lparr>walkers := walkers s @
                    [\<lparr>w_id = next_id (map w_id (walkers s)), w_first_seen = now,
                      w_last_seen = now', w_total_walks = 1\<rparr>]\<rparr>,
                next_id (map w_id (walkers s)))"
  using assms by (simp add: resolve_walker_def Let_def)

lemma resolve_walker_Some:
  assumes "match_to_walker cfg s now camera zone has_dog = Some m"
    and "resolve_walker cfg s now now' camera zone has_dog = Inr (s1, w)"
  shows "w = m"
    and "walkers s1 =
           update_first (\<lambda>x. w_id x = m) (\<lambda>x. x\<lparr>w_last_seen := now\<rparr>) (walkers s)"
    and "m \<in> w_id ` set (walkers s)"
  using assms
  by (auto simp: resolve_walker_def split: option.splits dest!: find_SomeD)

lemma resolve_walker_ids:
  assumes "resolve_walker cfg s now now' camera zone has_dog = Inr (s1, w)"
  shows "w \<in> w_id ` set (walkers s1)"
    and "w_id ` set (walkers s) \<subseteq> w_id ` set (walkers s1)"
    and "case match_to_walker cfg s now camera zone has_dog of
           Some m \<Rightarrow> w = m | None \<Rightarrow> w = next_id (map w_id (walkers s))"
proof -
  show "case match_to_walker cfg s now camera zone has_dog of
           Some m \<Rightarrow> w = m | None \<Rightarrow> w = next_id (map w_id (walkers s))"
    using assms by (auto simp: resolve_walker_def Let_def split: option.splits)
  show "w \<in> w_id ` set (walkers s1)"
  proof (cases "match_to_walker cfg s now camera zone has_dog")
    case None
    with assms show ?thesis by (auto simp: resolve_walker_None)
  next
    case (Some m)
    note f = resolve_walker_Some [OF Some assms]
    have "w_id ` set (walkers s1) = w_id ` set (walkers s)"
      unfolding f(2) by (rule update_first_image) simp
    with f show ?thesis by simp
  qed
  show "w_id ` set (walkers s) \<subseteq> w_id ` set (walkers s1)"
  proof (cases "match_to_walker cfg s now camera zone has_dog")
    case None
    with assms show ?thesis by (auto simp: resolve_walker_None)
  next
    case (Some m)
    note f = resolve_walker_Some [OF Some assms]
    have "w_id ` set (walkers s1) = w_id ` set (walkers s)"
      unfolding f(2) by (rule update_first_image) simp
    then show ?thesis by simp
  qed
qed

lemma process_detection_person:
  assumes "process_detection cfg s now now' camera zone path True has_dog pc dc = Inr (s', r)"
  obtains s1 w where "resolve_walker cfg s now now' camera zone has_dog = Inr (s1, w)"
    and "r = Some w"
    and "s' = record_detection cfg now w camera zone path has_dog pc dc s1"
  using assms by (auto simp: process_detection_def split: sum.splits)

lemma process_detection_result:
  assumes pd: "process_detection cfg s now now' camera zone path True has_dog pc dc = Inr (s', r)"
  shows "\<exists>w. r = Some w \<and> w \<in> w_id ` set (walkers s') \<and>
           w_id ` set (walkers s) \<subseteq> w_id ` set (walkers s') \<and>
           (case match_to_walker cfg s now camera zone has_dog of
              Some m \<Rightarrow> w = m
            | None \<Rightarrow> w = next_id (map w_id (walkers s))) \<and>
           recent_detections s' =
             filter (\<lambda>d. now - seconds (cross_camera_window cfg) \<le> e_timestamp d)
               (recent_detections s @
                  [\<lparr>e_walker_id = w, e_camera = camera, e_timestamp = now, e_has_dog = has_dog\<rparr>])"
proof -
  from pd obtain s1 w where rw: "resolve_walker cfg s now now' camera zone has_dog = Inr (s1, w)"
    and r: "r = Some w"
    and s': "s' = record_detection cfg now w camera zone path has_dog pc dc s1"
    by (rule process_detection_person)
  from resolve_walker_ids [OF rw] resolve_walker_fields(1) [OF rw] r s'
  show ?thesis by simp
qed

lemma process_detection_returns:
  assumes "\<And>m. match_to_walker cfg s now camera zone has_dog = Some m \<Longrightarrow>
             m \<in> w_id ` set (walkers s)"
  shows "\<exists>s' w. process_detection cfg s now now' camera zone path True has_dog pc dc = Inr (s', Some w)"
proof (cases "match_to_walker cfg s now camera zone has_dog")
  case None
  then show ?thesis by (simp add: process_detection_def resolve_walker_None)
next
  case (Some m)
  with assms have "m \<in> w_id ` set (walkers s)" by simp
  then obtain row where "find (\<lambda>w. w_id w = m) (walkers s) = Some row"
    by (cases "find (\<lambda>w. w_id w = m) (walkers s)") (auto simp: find_None_iff)
  with Some show ?thesis by (simp add: process_detection_def resolve_walker_def)
qed

lemma process_detection_flag:
  assumes inv: "window_inv s"
    and pd: "process_detection cfg s now now' camera zone path True has_dog pc dc = Inr (s', Some w)"
    and e: "e \<in> set (recent_detections s)" "e_walker_id e = w"
  shows "e_has_dog e = has_dog"
proof -
  from process_detection_result [OF pd]
  have m: "(case match_to_walker cfg s now camera zone has_dog of
              Some m \<Rightarrow> w = m
            | None \<Rightarrow> w = next_id (map w_id (walkers s)))"
    by simp
  from inv have ids: "e_walker_id x \<in> w_id ` set (walkers s)"
    if "x \<in> set (recent_detections s)" for x
    using that unfolding window_inv_def by blast
  from inv have flags: "e_has_dog x = e_has_dog y"
    if "x \<in> set (recent_detections s)" "y \<in> set (recent_detections s)"
      "e_walker_id x = e_walker_id y" for x y
    using that unfolding window_inv_def by blast
  show ?thesis
  proof (cases "match_to_walker cfg s now camera zone has_dog")
    case None
    with m have "w = next_id (map w_id (walkers s))" by simp
    moreover from ids [OF e(1)] e(2) have "w \<in> set (map w_id (walkers s))" by simp
    ultimately show ?thesis using next_id_fresh by metis
  next
    case (Some k)
    with m have "k = w" by simp
    with Some match_to_walker_Some obtain e' where
      "e' \<in> set (recent_detections s)" "e_walker_id e' = w" "e_has_dog e' = has_dog"
      by blast
    with flags [OF e(1), of e'] e(2) show ?thesis by simp
  qed
qed

lemma window_inv_process_detection:
  assumes inv: "window_inv s"
    and pd: "process_detection cfg s now now' camera zone path True has_dog pc dc = Inr (s', Some w)"
  shows "window_inv s'"
    and "\<forall>e \<in> set (recent_detections s'). e_walker_id e = w \<longrightarrow> e_has_dog e = has_dog"
proof -
  let ?new = "\<lparr>e_walker_id = w, e_camera = camera, e_timestamp = now, e_has_dog = has_dog\<rparr>"
  from process_detection_result [OF pd] have
    w: "w \<in> w_id ` set (walkers s')"
    and sub: "w_id ` set (walkers s) \<subseteq> w_id ` set (walkers s')"
    and rec: "recent_detections s' =
             filter (\<lambda>d. now - seconds (cross_camera_window cfg) \<le> e_timestamp d)
               (recent_detections s @ [?new])"
    by simp_all
  from inv have ids: "e_walker_id e \<in> w_id ` set (walkers s)"
    if "e \<in> set (recent_detections s)" for e
    using that unfolding window_inv_def by blast
  from inv have flags: "e_has_dog e = e_has_dog e'"
    if "e \<in> set (recent_detections s)" "e' \<in> set (recent_detections s)"
      "e_walker_id e = e_walker_id e'" for e e'
    using that unfolding window_inv_def by blast
  note flag = process_detection_flag [OF inv pd]
  have mem: "e \<in> set (recent_detections s) \<or> e = ?new"
    if "e \<in> set (recent_detections s')" for e
    using that unfolding rec by (auto split: if_splits)
  show "\<forall>e \<in> set (recent_detections s'). e_walker_id e = w \<longrightarrow> e_has_dog e = has_dog"
  proof (intro ballI impI)
    fix e assume "e \<in> set (recent_detections s')" and w: "e_walker_id e = w"
    from mem [OF this(1)] show "e_has_dog e = has_dog"
    proof
      assume "e \<in> set (recent_detections s)"
      then show ?thesis using w by (rule flag)
    next
      assume "e = ?new"
      then show ?thesis by simp
    qed
  qed
  show "window_inv s'"
    unfolding window_inv_def
  proof (intro conjI ballI impI)
    fix e assume "e \<in> set (recent_detections s')"
    from mem [OF this] show "e_walker_id e \<in> w_id ` set (walkers s')"
    proof
      assume "e \<in> set (recent_detections s)"
      from ids [OF this] sub show ?thesis by blast
    next
      assume "e = ?new"
      with w show ?thesis by simp
    qed
  next
    fix e e' assume e: "e \<in> set (recent_detections s')" and e': "e' \<in> set (recent_detections s')"
      and eq: "e_walker_id e = e_walker_id e'"
    from mem [OF e] mem [OF e'] show "e_has_dog e = e_has_dog e'"
    proof (elim disjE)
      assume "e \<in> set (recent_detections s)" "e' \<in> set (recent_detections s)"
      then show ?thesis using eq by (rule flags)
    next
      assume "e \<in> set (recent_detections s)" "e' = ?new"
      with eq flag [of e] show ?thesis by simp
    next
      assume "e = ?new" "e' \<in> set (recent_detections s)"
      with eq flag [of e'] show ?thesis by simp
    next
      assume "e = ?new" "e' = ?new"
      then show ?thesis by simp
    qed
  qed
qed

lemma window_inv_returns:
  assumes "window_inv s"
  shows "\<exists>s' w. process_detection cfg s now now' camera zone path True has_dog pc dc = Inr (s', Some w)"
proof (rule process_detection_returns)
  fix m assume "match_to_walker cfg s now camera zone has_dog = Some m"
  from match_to_walker_Some [OF this] obtain e where
    "e \<in> set (recent_detections s)" "e_walker_id e = m"
    by blast
  moreover from assms have "\<forall>e \<in> set (recent_detections s). e_walker_id e \<in> w_id ` set (walkers s)"
    unfolding window_inv_def by (rule conjunct1)
  ultimately show "m \<in> w_id ` set (walkers s)"
    by blast
qed

lemma window_inv_empty: "recent_detections s = [] \<Longrightarrow> window_inv s"
  by (simp add: window_inv_def)

lemma process_detection_matched_returns:
  assumes m: "match_to_walker cfg s now camera zone has_dog = Some m"
    and row: "m \<in> w_id ` set (walkers s)"
  shows "\<exists>s'. process_detection cfg s now now' camera zone path True has_dog pc dc = Inr (s', Some m)"
proof -
  from m row have "\<exists>s' w. process_detection cfg s now now' camera zone path True has_dog pc dc =
      Inr (s', Some w)"
    by (intro process_detection_returns) simp
  then obtain s' w where
    pd: "process_detection cfg s now now' camera zone path True has_dog pc dc = Inr (s', Some w)"
    by blast
  from process_detection_result [OF pd] m have "w = m" by simp
  with pd show ?thesis by blast
qed

lemma process_detection_fresh_returns:
  assumes m: "match_to_walker cfg s now camera zone has_dog = None"
  shows "\<exists>s'. process_detection cfg s now now' camera zone path True has_dog pc dc =
           Inr (s', Some (next_id (map w_id (walkers s)))) \<and>
         walkers s' = walkers s @
           [\<lparr>w_id = next_id (map w_id (walkers s)), w_first_seen = now, w_last_seen = now',
             w_total_walks = 1\<rparr>]"
proof -
  let ?w = "next_id (map w_id (walkers s))"
  let ?s1 = "s\<lparr>walkers := walkers s @
               [\<lparr>w_id = ?w, w_first_seen = now, w_last_seen = now', w_total_walks = 1\<rparr>]\<rparr>"
  let ?s' = "record_detection cfg now ?w camera zone path has_dog pc dc ?s1"
  from m have "process_detection cfg s now now' camera zone path True has_dog pc dc =
      Inr (?s', Some ?w)"
    by (simp add: process_detection_def resolve_walker_None)
  moreover have "walkers ?s' = walkers s @
      [\<lparr>w_id = ?w, w_first_seen = now, w_last_seen = now', w_total_walks = 1\<rparr>]"
    by simp
  ultimately show ?thesis by blast
qed

lemma after_first_reached:
  "final_state example_config fresh_tracker [seen 0 ''front'' False] = Inr after_first"
  by (simp add: final_state_def seen_def example_config_def fresh_tracker_def after_first_def
      process_detection_def resolve_walker_def record_detection_def match_to_walker_def
      clean_recent_detections_def update_walk_session_def next_id_def seconds_def Let_def)

lemma seconds_60_pos: "0 < seconds 60"
  by (simp add: seconds_def)

lemma rev_recent_after:
  assumes "process_detection cfg s t1 t1' cam1 z1 p1 True dog pc1 dc1 = Inr (s1, Some w1)"
  shows "rev (recent_detections s1) =
           (if 0 \<le> seconds (cross_camera_window cfg)
            then [\<lparr>e_walker_id = w1, e_camera = cam1, e_timestamp = t1, e_has_dog = dog\<rparr>]
            else []) @
           rev (filter (\<lambda>e. t1 - seconds (cross_camera_window cfg) \<le> e_timestamp e)
                  (recent_detections s))"
proof -
  from process_detection_result [OF assms]
  have "recent_detections s1 =
          filter (\<lambda>d. t1 - seconds (cross_camera_window cfg) \<le> e_timestamp d)
            (recent_detections s @
               [\<lparr>e_walker_id = w1, e_camera = cam1, e_timestamp = t1, e_has_dog = dog\<rparr>])"
    by simp
  then show ?thesis by simp
qed

lemma newest_entry_match:
  assumes pd1: "process_detection cfg s t1 t1' cam1 z1 p1 True dog pc1 dc1 = Inr (s1, r1)"
    and order: "t1 \<le> t2"
    and within: "t2 - t1 \<le> seconds (cross_camera_window cfg)"
    and ok: "cam1 \<noteq> cam2 \<or> seconds 60 < t2 - t1"
  shows "r1 \<noteq> None \<and>
         (\<exists>s2. process_detection cfg s1 t2 t2' cam2 z2 p2 True dog pc2 dc2 = Inr (s2, r1))"
proof -
  from process_detection_result [OF pd1] obtain w1 where r1: "r1 = Some w1"
    and row: "w1 \<in> w_id ` set (walkers s1)"
    by blast
  from order within have win: "0 \<le> seconds (cross_camera_window cfg)" by simp
  from pd1 r1 have "rev (recent_detections s1) =
           (if 0 \<le> seconds (cross_camera_window cfg)
            then [\<lparr>e_walker_id = w1, e_camera = cam1, e_timestamp = t1, e_has_dog = dog\<rparr>]
            else []) @
           rev (filter (\<lambda>e. t1 - seconds (cross_camera_window cfg) \<le> e_timestamp e)
                  (recent_detections s))"
    by (intro rev_recent_after) simp
  with win have "rev (recent_detections s1) =
           \<lparr>e_walker_id = w1, e_camera = cam1, e_timestamp = t1, e_has_dog = dog\<rparr> #
           rev (filter (\<lambda>e. t1 - seconds (cross_camera_window cfg) \<le> e_timestamp e)
                  (recent_detections s))"
    by simp
  with within ok have "match_to_walker cfg s1 t2 cam2 z2 dog = Some w1"
    by (auto simp: match_to_walker_def)
  from process_detection_matched_returns [OF this row] r1 show ?thesis by simp
qed

lemma find_update_first:
  assumes "\<And>x. P (f x) = P x"
  shows "find P (update_first P f xs) = map_option f (find P xs)"
  using assms by (induction xs) auto

lemmas run_defs =
  returned_def final_state_def seen_def example_config_def fresh_tracker_def
  process_detection_def resolve_walker_def record_detection_def match_to_walker_def
  clean_recent_detections_def update_walk_session_def next_id_def seconds_def
  is_open_for_def Let_def

lemma first_detection:
  "process_detection example_config fresh_tracker (seconds 0) (seconds 0) ''front'' ''zone'' ''path''
     True False (1 / 2) (1 / 2) = Inr (after_first, Some 1)"
  by (simp add: run_defs after_first_def)

lemma next_id_after_first: "next_id (map w_id (walkers after_first)) = 2"
  by (simp add: after_first_def next_id_def)

subsection \<open>Sessions\<close>

lemma update_first_absent: "find P xs = None \<Longrightarrow> update_first P f xs = xs"
  by (induction xs) (auto split: if_splits)

lemma length_update_first [simp]: "length (update_first P f xs) = length xs"
  by (induction xs) auto

lemma length_filter_update_first_keep:
  "(\<And>x. P x \<Longrightarrow> Q (f x) = Q x) \<Longrightarrow>
     length (filter Q (update_first P f xs)) = length (filter Q xs)"
  by (induction xs) auto

lemma length_filter_update_first_drop:
  "(\<And>x. P x \<Longrightarrow> \<not> P (f x)) \<Longrightarrow>
     length (filter P (update_first P f xs)) = length (filter P xs) - 1"
  by (induction xs) auto

lemma find_None_open_count:
  "find (is_open_for w) (walk_sessions s) = None \<longleftrightarrow> open_count w s = 0"
  by (auto simp: open_count_def find_None_iff filter_empty_conv)

lemma open_count_update_walk_session:
  "open_count w' (update_walk_session now w camera path dog s) =
     (if w' = w \<and> open_count w s = 0 then 1 else open_count w' s)"
proof (cases "find (is_open_for w) (walk_sessions s)")
  case None
  then have "open_count w s = 0" by (simp add: find_None_open_count)
  with None show ?thesis
    by (auto simp: update_walk_session_def open_count_def is_open_for_def)
next
  case (Some a)
  then have pos: "open_count w s \<noteq> 0"
    using find_None_open_count [of w s] by simp
  have "length (filter (is_open_for w')
          (update_first (is_open_for w)
             (\<lambda>a. a\<lparr>ws_cameras_visited := add_name (ws_cameras_visited a) camera,
                     ws_paths_taken := add_name (ws_paths_taken a) path,
                     ws_has_dog := (ws_has_dog a \<or> dog)\<rparr>)
             (walk_sessions s))) =
        length (filter (is_open_for w') (walk_sessions s))"
    by (rule length_filter_update_first_keep) (simp add: is_open_for_def)
  with Some pos show ?thesis
    by (simp add: update_walk_session_def open_count_def)
qed

lemma walk_sessions_close_session:
  "walk_sessions (close_session now w s) =
     update_first (is_open_for w) (\<lambda>a. a\<lparr>ws_end_time := Some now\<rparr>) (walk_sessions s)"
  by (cases "find (is_open_for w) (walk_sessions s)")
     (simp_all add: close_session_def update_first_absent)

lemma open_count_close_session:
  "open_count w' (close_session now w s) =
     (if w' = w then open_count w s - 1 else open_count w' s)"
proof (cases "w' = w")
  case True
  have "length (filter (is_open_for w)
          (update_first (is_open_for w) (\<lambda>a. a\<lparr>ws_end_time := Some now\<rparr>) (walk_sessions s))) =
        length (filter (is_open_for w) (walk_sessions s)) - 1"
    by (rule length_filter_update_first_drop) (simp add: is_open_for_def)
  with True show ?thesis
    by (simp add: open_count_def walk_sessions_close_session)
next
  case False
  have "length (filter (is_open_for w')
          (update_first (is_open_for w) (\<lambda>a. a\<lparr>ws_end_time := Some now\<rparr>) (walk_sessions s))) =
        length (filter (is_open_for w') (walk_sessions s))"
    using False by (intro length_filter_update_first_keep) (auto simp: is_open_for_def)
  with False show ?thesis
    by (simp add: open_count_def walk_sessions_close_session)
qed

lemma close_session_absent: "open_count w s = 0 \<Longrightarrow> close_session now w s = s"
  by (simp add: close_session_def flip: find_None_open_count)

lemma close_session_other [simp]:
  "walkers (close_session now w s) = walkers s"
  "detections (close_session now w s) = detections s"
  "walker_images (close_session now w s) = walker_images s"
  "files (close_session now w s) = files s"
  "recent_detections (close_session now w s) = recent_detections s"
  by (simp_all add: close_session_def split: option.splits)

lemma fold_delete_image_other [simp]:
  "walkers (fold delete_image imgs s) = walkers s"
  "detections (fold delete_image imgs s) = detections s"
  "walk_sessions (fold delete_image imgs s) = walk_sessions s"
  "recent_detections (fold delete_image imgs s) = recent_detections s"
  by (induction imgs arbitrary: s) (simp_all add: delete_image_def)

lemma save_walker_image_other [simp]:
  "walkers (save_walker_image cfg now w p ty cam q s) = walkers s"
  "detections (save_walker_image cfg now w p ty cam q s) = detections s"
  "walk_sessions (save_walker_image cfg now w p ty cam q s) = walk_sessions s"
  "recent_detections (save_walker_image cfg now w p ty cam q s) = recent_detections s"
  by (simp_all add: save_walker_image_def cleanup_old_images_def Let_def)

lemma record_detection_walk_sessions:
  "walk_sessions (record_detection cfg now w camera zone path dog pc dc s) =
     walk_sessions (update_walk_session now w camera path dog s)"
  by (simp add: record_detection_def Let_def update_walk_session_def
      clean_recent_detections_def split: option.splits)

lemma open_count_cong: "walk_sessions s = walk_sessions t \<Longrightarrow> open_count w s = open_count w t"
  by (simp add: open_count_def)

lemma open_count_exec_call:
  assumes "open_count w s \<le> 1" and "exec_call cfg s c = Inr (s', r)"
  shows "open_count w s' \<le> 1"
proof (cases c)
  case (Process_detection now now' camera zone path has_person dog pc dc)
  show ?thesis
  proof (cases has_person)
    case False
    with assms Process_detection show ?thesis by (simp add: process_detection_def)
  next
    case True
    with assms(2) Process_detection
    have "process_detection cfg s now now' camera zone path True dog pc dc = Inr (s', r)" by simp
    then obtain s1 m where rw: "resolve_walker cfg s now now' camera zone dog = Inr (s1, m)"
      and s': "s' = record_detection cfg now m camera zone path dog pc dc s1"
      by (rule process_detection_person)
    from resolve_walker_fields(3) [OF rw] have "open_count w s1 = open_count w s"
      and "open_count m s1 = open_count m s"
      by (simp_all add: open_count_def)
    moreover have "open_count w s' = open_count w (update_walk_session now m camera path dog s1)"
      unfolding s' by (rule open_count_cong) (rule record_detection_walk_sessions)
    ultimately show ?thesis using assms(1)
      by (simp add: open_count_update_walk_session)
  qed
next
  case (Record_exit now m camera zone path)
  with assms show ?thesis by (auto simp: record_exit_def open_count_def)
next
  case (Close_session now m)
  with assms show ?thesis by (auto simp: open_count_close_session)
next
  case (Save_walker_image now m p ty cam q)
  with assms show ?thesis by (auto simp: open_count_def)
qed

lemma open_count_exec_calls:
  assumes "open_count w s \<le> 1" and "exec_calls cfg s cs = Inr (s', rs)"
  shows "open_count w s' \<le> 1"
  using assms
proof (induction cs arbitrary: s rs)
  case Nil
  then show ?case by simp
next
  case (Cons c cs)
  from Cons.prems(2) obtain s1 r rs' where c: "exec_call cfg s c = Inr (s1, r)"
    and cs: "exec_calls cfg s1 cs = Inr (s', rs')"
    by (auto split: sum.splits prod.splits)
  from open_count_exec_call [OF Cons.prems(1) c] have "open_count w s1 \<le> 1" .
  from Cons.IH [OF this cs] show ?case .
qed

lemma window_inv_cong:
  assumes "walkers t = walkers s" and "recent_detections t = recent_detections s"
    and "window_inv s"
  shows "window_inv t"
  using assms(3) unfolding window_inv_def assms(1) assms(2) .

lemma window_inv_exec_call:
  assumes inv: "window_inv s"
  shows "\<exists>s' r. exec_call cfg s c = Inr (s', r) \<and> window_inv s'"
proof (cases c)
  case (Process_detection now now' camera zone path has_person dog pc dc)
  show ?thesis
  proof (cases has_person)
    case False
    with inv Process_detection show ?thesis by (simp add: process_detection_def)
  next
    case True
    from window_inv_returns [OF inv] obtain s' m where
      pd: "process_detection cfg s now now' camera zone path True dog pc dc = Inr (s', Some m)"
      by blast
    from window_inv_process_detection(1) [OF inv pd] pd True Process_detection
    show ?thesis by simp
  qed
next
  case (Record_exit now m camera zone path)
  have "window_inv (record_exit now m camera zone path s)"
    by (rule window_inv_cong [OF _ _ inv]) (simp_all add: record_exit_def)
  with Record_exit show ?thesis by simp
next
  case (Close_session now m)
  have "window_inv (close_session now m s)"
    by (rule window_inv_cong [OF _ _ inv]) simp_all
  with Close_session show ?thesis by simp
next
  case (Save_walker_image now m p ty cam q)
  have "window_inv (save_walker_image cfg now m p ty cam q s)"
    by (rule window_inv_cong [OF _ _ inv]) simp_all
  with Save_walker_image show ?thesis by simp
qed

lemma exec_calls_returns:
  assumes "window_inv s"
  shows "\<exists>s' rs. exec_calls cfg s cs = Inr (s', rs) \<and> window_inv s'"
  using assms
proof (induction cs arbitrary: s)
  case Nil
  then show ?case by simp
next
  case (Cons c cs)
  from window_inv_exec_call [OF Cons.prems] obtain s1 r where
    c: "exec_call cfg s c = Inr (s1, r)" and inv1: "window_inv s1"
    by blast
  from Cons.IH [OF inv1] obtain s' rs where
    "exec_calls cfg s1 cs = Inr (s', rs)" "window_inv s'"
    by blast
  with c show ?case by simp
qed

lemma update_first_present: "find P xs = Some a \<Longrightarrow> f a \<in> set (update_first P f xs)"
  by (induction xs) (auto split: if_splits)

lemma window_inv_after_first: "window_inv after_first"
  by (simp add: window_inv_def after_first_def)

text \<open>Every state a tracker reaches from an empty evidence list satisfies \<open>window_inv\<close>.\<close>

lemma window_inv_reachable:
  assumes "recent_detections s = []" and "exec_calls cfg s cs = Inr (s', rs)"
  shows "window_inv s'"
proof -
  from assms(1) have "window_inv s" by (rule window_inv_empty)
  from exec_calls_returns [OF this, of cfg cs] assms(2) show ?thesis by auto
qed

text \<open>
  The scenario of section 8 of the specification (window 30 seconds, events A to E): the
  model gives the walkers W1, W1, W1, W2, W3, as the specification says.
\<close>

lemma specification_scenario:
  "returned (example_config\<lparr>cross_camera_window := 30\<rparr>) fresh_tracker
     [seen 0 ''front'' False, seen 5 ''back'' False, seen 10 ''front'' False,
      seen 12 ''front'' True, seen 50 ''front'' False] =
   Inr [Some 1, Some 1, Some 1, Some 2, Some 3]"
  by (simp add: run_defs)

subsection \<open>Image retention\<close>

lemma fold_delete_image_images:
  "walker_images (fold delete_image imgs s) =
     filter (\<lambda>i. i_id i \<notin> i_id ` set imgs) (walker_images s)"
  by (induction imgs arbitrary: s) (auto simp: delete_image_def intro: filter_cong)

lemma fold_delete_image_files:
  "files (fold delete_image imgs s) = files s - i_image_path ` set imgs"
  by (induction imgs arbitrary: s) (auto simp: delete_image_def)

lemma slice_from_nonneg: "0 \<le> m \<Longrightarrow> slice_from m xs = drop (nat m) xs"
  by (simp add: slice_from_def)

lemma cleanup_old_images_images:
  assumes "0 \<le> m"
  shows "walker_images (cleanup_old_images w m s) =
           filter (\<lambda>i. i_id i \<notin> i_id ` set (drop (nat m) (ranked_images w s)))
             (walker_images s)"
proof (cases "int (length (ranked_images w s)) > m")
  case True
  with assms show ?thesis
    by (simp add: cleanup_old_images_def Let_def slice_from_nonneg fold_delete_image_images)
next
  case False
  with assms have "drop (nat m) (ranked_images w s) = []" by simp
  with False show ?thesis by (simp add: cleanup_old_images_def Let_def)
qed

lemma cleanup_old_images_files:
  assumes "0 \<le> m"
  shows "files (cleanup_old_images w m s) =
           files s - i_image_path ` set (drop (nat m) (ranked_images w s))"
proof (cases "int (length (ranked_images w s)) > m")
  case True
  with assms show ?thesis
    by (simp add: cleanup_old_images_def Let_def slice_from_nonneg fold_delete_image_files)
next
  case False
  with assms have "drop (nat m) (ranked_images w s) = []" by simp
  with False show ?thesis by (simp add: cleanup_old_images_def Let_def)
qed

lemma image_rank_le:
  "image_rank r \<le> image_rank e \<longleftrightarrow>
     i_quality_score e < i_quality_score r \<or>
     (i_quality_score e = i_quality_score r \<and> i_timestamp e \<le> i_timestamp r)"
  by (auto simp: image_rank_def less_eq_prod_def)

lemma sorted_take_drop:
  assumes "sorted (map f xs)" and "a \<in> set (take n xs)" and "b \<in> set (drop n xs)"
  shows "f a \<le> f b"
proof -
  have "map f xs = map f (take n xs) @ map f (drop n xs)"
    by (simp flip: map_append)
  with assms(1) have "sorted (map f (take n xs) @ map f (drop n xs))" by simp
  with assms(2,3) show ?thesis by (auto simp: sorted_append)
qed

text \<open>Keeping the rows whose key is not among the keys of a suffix, when keys are distinct.\<close>

lemma filter_not_in_drop:
  assumes "distinct (map k xs)"
  shows "filter (\<lambda>i. k i \<notin> k ` set (drop n xs)) xs = take n xs"
proof -
  from assms have d: "distinct (map k (take n xs) @ map k (drop n xs))"
    by (simp flip: map_append)
  then have disj: "k ` set (take n xs) \<inter> k ` set (drop n xs) = {}" by simp
  let ?P = "\<lambda>i. k i \<notin> k ` set (drop n xs)"
  from disj have "\<forall>i \<in> set (take n xs). ?P i" by blast
  then have keep: "filter ?P (take n xs) = take n xs" by (rule filter_True)
  have "\<forall>i \<in> set (drop n xs). \<not> ?P i" by blast
  then have drop: "filter ?P (drop n xs) = []" by (rule filter_False)
  have "filter ?P xs = filter ?P (take n xs) @ filter ?P (drop n xs)"
    by (metis append_take_drop_id filter_append)
  with keep drop show ?thesis by simp
qed

lemma filter_mset_eq_length:
  assumes "mset xs = mset ys"
  shows "length (filter P xs) = length (filter P ys)"
    and "set (filter P xs) = set (filter P ys)"
proof -
  from assms have "mset (filter P xs) = mset (filter P ys)" by simp
  then show "length (filter P xs) = length (filter P ys)" by (rule mset_eq_length)
  from assms have "set xs = set ys" by (rule mset_eq_setD)
  then show "set (filter P xs) = set (filter P ys)" by simp
qed

lemma distinct_map_filter_ids: "distinct (map k xs) \<Longrightarrow> distinct (map k (filter P xs))"
  by (rule distinct_map_filter)

lemma next_id_new_image:
  "i_id (new_image s now w p ty cam q) \<notin> i_id ` set (walker_images s)"
  using next_id_fresh [of "map i_id (walker_images s)"] by (simp add: new_image_def)

lemma retention_core:
  assumes dist: "distinct (map i_id (walker_images s))" and m: "0 \<le> max_images_per_walker cfg"
    and all_images_def: "all_images = walker_images s @ [new_image s now w path ty cam q]"
    and ranked_def:
      "ranked = sort_key image_rank (filter (\<lambda>i. i_walker_id i = w) all_images)"
    and n_def: "n = nat (max_images_per_walker cfg)"
    and s'_def: "s' = save_walker_image cfg now w path ty cam q s"
  shows "walker_images s' = filter (\<lambda>i. i_id i \<notin> i_id ` set (drop n ranked)) all_images"
    and "files s' = files s - i_image_path ` set (drop n ranked)"
    and "distinct (map i_id all_images)"
    and "filter (\<lambda>i. i_id i \<notin> i_id ` set (drop n ranked)) ranked = take n ranked"
    and "filter (\<lambda>i. i_walker_id i \<noteq> w) (walker_images s') =
           filter (\<lambda>i. i_walker_id i \<noteq> w) (walker_images s)"
proof -
  let ?s1 = "s\<lparr>walker_images := all_images\<rparr>"
  let ?F = "filter (\<lambda>i. i_walker_id i = w) all_images"
  let ?P = "\<lambda>i. i_id i \<notin> i_id ` set (drop n ranked)"
  have r: "ranked_images w ?s1 = ranked"
    by (simp add: ranked_images_def ranked_def)
  have s': "s' = cleanup_old_images w (max_images_per_walker cfg) ?s1"
    by (simp add: s'_def save_walker_image_def all_images_def)
  from cleanup_old_images_images [OF m, of w ?s1]
  show imgs: "walker_images s' = filter ?P all_images"
    unfolding s' r n_def by simp
  from cleanup_old_images_files [OF m, of w ?s1]
  show "files s' = files s - i_image_path ` set (drop n ranked)"
    unfolding s' r n_def by simp
  from dist next_id_new_image [of s now w path ty cam q]
  show dall: "distinct (map i_id all_images)"
    by (simp add: all_images_def)
  then have "distinct (map i_id ?F)" by (rule distinct_map_filter)
  moreover have "mset (map i_id ranked) = mset (map i_id ?F)"
    by (simp add: ranked_def)
  ultimately have "distinct (map i_id ranked)"
    using mset_eq_imp_distinct_iff by blast
  then show "filter ?P ranked = take n ranked" by (rule filter_not_in_drop)
  have new_w: "i_walker_id (new_image s now w path ty cam q) = w"
    by (simp add: new_image_def)
  have other: "?P i" if i: "i \<in> set all_images" "i_walker_id i \<noteq> w" for i
  proof
    assume "i_id i \<in> i_id ` set (drop n ranked)"
    then obtain e where e: "e \<in> set (drop n ranked)" "i_id e = i_id i" by auto
    from e(1) have "e \<in> set ranked" by (rule in_set_dropD)
    then have e': "e \<in> set all_images" "i_walker_id e = w" by (simp_all add: ranked_def)
    from dall have "inj_on i_id (set all_images)" by (simp add: distinct_map)
    from this e(2) e'(1) i(1) have "e = i" by (rule inj_onD)
    with e'(2) i(2) show False by simp
  qed
  have "filter (\<lambda>i. i_walker_id i \<noteq> w) (walker_images s') =
          filter (\<lambda>i. i_walker_id i \<noteq> w) all_images"
    unfolding imgs filter_filter by (rule filter_cong) (use other in auto)
  also have "\<dots> = filter (\<lambda>i. i_walker_id i \<noteq> w) (walker_images s)"
    by (simp add: all_images_def new_w)
  finally show "filter (\<lambda>i. i_walker_id i \<noteq> w) (walker_images s') =
           filter (\<lambda>i. i_walker_id i \<noteq> w) (walker_images s)" .
qed

lemma save_example:
  "map i_id (walker_images (save_walker_image example_config (seconds 3) 1 ''d.jpg''
      ''person'' ''front'' (7 / 10) with_images)) = [2, 3, 4] \<and>
   files (save_walker_image example_config (seconds 3) 1 ''d.jpg''
      ''person'' ''front'' (7 / 10) with_images) = {''b.jpg'', ''c.jpg''}"
  by (auto simp: save_walker_image_def cleanup_old_images_def ranked_images_def new_image_def
      with_images_def after_first_def example_config_def next_id_def slice_from_def
      delete_image_def image_rank_def seconds_def Let_def less_eq_prod_def)

subsection \<open>The ingestion adapter\<close>

lemma record_detection_detections:
  "detections (record_detection cfg now w camera zone path dog pc dc s) =
     detections s @
       [\<lparr>d_id = next_id (map d_id (detections s)), d_walker_id = w, d_camera = camera,
         d_zone = zone, d_path_name = path, d_timestamp = now, d_event_type = ''enter'',
         d_has_dog = dog, d_person_confidence = Some pc,
         d_dog_confidence = (if dog then Some dc else None)\<rparr>]"
  by (simp add: record_detection_def Let_def)

lemma capture_latest_frame_other [simp]:
  "walkers (capture_latest_frame cfg now w cam ty frame s) = walkers s"
  "detections (capture_latest_frame cfg now w cam ty frame s) = detections s"
  "walk_sessions (capture_latest_frame cfg now w cam ty frame s) = walk_sessions s"
  "recent_detections (capture_latest_frame cfg now w cam ty frame s) = recent_detections s"
  by (simp_all add: capture_latest_frame_def split: option.splits)

lemma app_process_detection_rejected:
  "cameras cfg camera = None \<or> object_type \<noteq> ''person'' \<or> payload_count pl \<le> 0 \<Longrightarrow>
     app_process_detection cfg s now now' camera object_type pl frame = Inr s"
  by (auto simp: app_process_detection_def Let_def split: option.splits)

lemma app_process_detection_accepted:
  assumes cam: "cameras cfg camera = Some cc" and cnt: "0 < payload_count pl"
    and run: "app_process_detection cfg s now now' camera ''person'' pl frame = Inr s'"
  obtains s1 w where
    "process_detection cfg s now now' camera (cc_zone cc) (cc_path_name cc) True False
       (min_person_confidence cfg) 0 = Inr (s1, Some w)"
    and "detections s' = detections s1" and "recent_detections s' = recent_detections s1"
    and "walkers s' = walkers s1" and "walk_sessions s' = walk_sessions s1"
proof -
  let ?pd = "process_detection cfg s now now' camera (cc_zone cc) (cc_path_name cc) True False
       (min_person_confidence cfg) 0"
  from run cam cnt obtain s1 r where pd: "?pd = Inr (s1, r)"
    by (cases ?pd) (auto simp: app_process_detection_def Let_def)
  from process_detection_result [OF pd] obtain w where r: "r = Some w" by blast
  from run cam cnt pd r have "s' = s1 \<or> s' = capture_latest_frame cfg now w camera ''person'' frame s1"
    by (auto simp: app_process_detection_def Let_def split: if_splits)
  then have "detections s' = detections s1" "recent_detections s' = recent_detections s1"
    "walkers s' = walkers s1" "walk_sessions s' = walk_sessions s1"
    by auto
  with pd r that show ?thesis by blast
qed

lemma process_detection_detections:
  assumes "process_detection cfg s now now' camera zone path True dog pc dc = Inr (s1, Some w)"
  shows "detections s1 = detections s @
       [\<lparr>d_id = next_id (map d_id (detections s)), d_walker_id = w, d_camera = camera,
         d_zone = zone, d_path_name = path, d_timestamp = now, d_event_type = ''enter'',
         d_has_dog = dog, d_person_confidence = Some pc,
         d_dog_confidence = (if dog then Some dc else None)\<rparr>]"
proof -
  from assms obtain s0 m where rw: "resolve_walker cfg s now now' camera zone dog = Inr (s0, m)"
    and r: "Some w = Some m"
    and s1: "s1 = record_detection cfg now m camera zone path dog pc dc s0"
    by (rule process_detection_person)
  from resolve_walker_fields(2) [OF rw] r s1 show ?thesis
    by (simp add: record_detection_detections)
qed

lemma no_dog_app_process_detection:
  assumes nd: "no_dog s"
    and run: "app_process_detection cfg s now now' camera object_type pl frame = Inr s'"
  shows "no_dog s'"
proof (cases "cameras cfg camera = None \<or> object_type \<noteq> ''person'' \<or> payload_count pl \<le> 0")
  case True
  from app_process_detection_rejected [OF True] run nd show ?thesis by simp
next
  case False
  then obtain cc where cam: "cameras cfg camera = Some cc" and cnt: "0 < payload_count pl"
    and ot: "object_type = ''person''"
    by auto
  from run ot have run': "app_process_detection cfg s now now' camera ''person'' pl frame = Inr s'"
    by simp
  from cam cnt run' obtain s1 w where
    pd: "process_detection cfg s now now' camera (cc_zone cc) (cc_path_name cc) True False
       (min_person_confidence cfg) 0 = Inr (s1, Some w)"
    and d: "detections s' = detections s1" and e: "recent_detections s' = recent_detections s1"
    by (rule app_process_detection_accepted)
  from process_detection_detections [OF pd] process_detection_result [OF pd] nd
  show ?thesis
    unfolding no_dog_def d e by (auto simp: list_all_iff)
qed

lemma no_dog_app_run: "no_dog s \<Longrightarrow> no_dog (app_run cfg s evs)"
proof (induction evs arbitrary: s)
  case Nil
  then show ?case by simp
next
  case (Cons ev evs)
  let ?step = "app_process_detection cfg s (ev_now ev) (ev_now2 ev) (ev_camera ev) (ev_object_type ev)
               (ev_payload ev) (ev_frame ev)"
  show ?case
  proof (cases ?step)
    case (Inl err)
    with Cons show ?thesis by simp
  next
    case (Inr s1)
    from no_dog_app_process_detection [OF Cons.prems Inr] have "no_dog s1" .
    from Cons.IH [OF this] Inr show ?thesis by simp
  qed
qed

lemma app_process_detection_returns:
  assumes "window_inv s"
  shows "\<exists>s'. app_process_detection cfg s now now' camera object_type pl frame = Inr s'"
proof (cases "cameras cfg camera = None \<or> object_type \<noteq> ''person'' \<or> payload_count pl \<le> 0")
  case True
  from app_process_detection_rejected [OF True] show ?thesis by blast
next
  case False
  then obtain cc where cam: "cameras cfg camera = Some cc" and cnt: "0 < payload_count pl"
    and ot: "object_type = ''person''"
    by auto
  from window_inv_returns [OF assms] obtain s1 w where
    "process_detection cfg s now now' camera (cc_zone cc) (cc_path_name cc) True False
       (min_person_confidence cfg) 0 = Inr (s1, Some w)"
    by blast
  with cam cnt ot show ?thesis
    by (simp add: app_process_detection_def Let_def)
qed

section \<open>The scan of the evidence list\<close>

text \<open>The scan returns the walker of the first entry (newest first) that passes its tests.\<close>

lemma match_scan_find:
  "match_scan now cutoff camera has_dog ds =
     map_option e_walker_id
       (find (\<lambda>e. \<not> e_timestamp e < cutoff \<and> e_has_dog e = has_dog \<and>
                  (e_camera e \<noteq> camera \<or> seconds 60 < now - e_timestamp e)) ds)"
  by (induction ds) auto

lemma match_scan_skip_prefix:
  assumes "\<forall>x \<in> set pre. e_timestamp x < cutoff \<or> e_has_dog x \<noteq> has_dog \<or>
             (e_camera x = camera \<and> now - e_timestamp x \<le> seconds 60)"
  shows "match_scan now cutoff camera has_dog (pre @ rest) =
           match_scan now cutoff camera has_dog rest"
  using assms by (induction pre) auto

lemma match_scan_debounced:
  "match_scan now cutoff camera has_dog
     (filter (\<lambda>e. \<not> (e_camera e = camera \<and> now - e_timestamp e \<le> seconds 60)) ds) =
   match_scan now cutoff camera has_dog ds"
  by (induction ds) auto

lemma match_to_walker_row:
  assumes "window_inv s" and "match_to_walker cfg s now camera zone has_dog = Some m"
  shows "m \<in> w_id ` set (walkers s)"
proof -
  from match_to_walker_Some [OF assms(2)] obtain e where
    "e \<in> set (recent_detections s)" "e_walker_id e = m"
    by blast
  moreover from assms(1)
  have "\<forall>e \<in> set (recent_detections s). e_walker_id e \<in> w_id ` set (walkers s)"
    unfolding window_inv_def by (rule conjunct1)
  ultimately show ?thesis by blast
qed

lemma match_skipping_newer:
  assumes split: "recent_detections s = older @ e1 # newer"
    and within: "now - e_timestamp e1 \<le> seconds (cross_camera_window cfg)"
    and flag: "e_has_dog e1 = has_dog"
    and ok: "e_camera e1 \<noteq> camera \<or> seconds 60 < now - e_timestamp e1"
    and skipped: "\<forall>x \<in> set newer.
        seconds (cross_camera_window cfg) < now - e_timestamp x \<or> e_has_dog x \<noteq> has_dog \<or>
        (e_camera x = camera \<and> now - e_timestamp x \<le> seconds 60)"
  shows "match_to_walker cfg s now camera zone has_dog = Some (e_walker_id e1)"
proof -
  let ?cut = "now - seconds (cross_camera_window cfg)"
  have rv: "rev (recent_detections s) = rev newer @ (e1 # rev older)"
    by (simp add: split)
  from skipped have "\<forall>x \<in> set (rev newer). e_timestamp x < ?cut \<or> e_has_dog x \<noteq> has_dog \<or>
             (e_camera x = camera \<and> now - e_timestamp x \<le> seconds 60)"
    by auto
  then have "match_scan now ?cut camera has_dog (rev newer @ (e1 # rev older)) =
      match_scan now ?cut camera has_dog (e1 # rev older)"
    by (rule match_scan_skip_prefix)
  also from within flag ok have "\<dots> = Some (e_walker_id e1)" by auto
  finally show ?thesis by (simp add: match_to_walker_def rv)
qed

lemma process_detection_skipping_newer:
  assumes inv: "window_inv s"
    and split: "recent_detections s = older @ e1 # newer"
    and within: "now - e_timestamp e1 \<le> seconds (cross_camera_window cfg)"
    and flag: "e_has_dog e1 = has_dog"
    and ok: "e_camera e1 \<noteq> camera \<or> seconds 60 < now - e_timestamp e1"
    and skipped: "\<forall>x \<in> set newer.
        seconds (cross_camera_window cfg) < now - e_timestamp x \<or> e_has_dog x \<noteq> has_dog \<or>
        (e_camera x = camera \<and> now - e_timestamp x \<le> seconds 60)"
  shows "\<exists>s'. process_detection cfg s now now' camera zone path True has_dog pc dc =
           Inr (s', Some (e_walker_id e1))"
proof -
  from match_skipping_newer [OF split within flag ok skipped]
  have m: "match_to_walker cfg s now camera zone has_dog = Some (e_walker_id e1)" .
  from match_to_walker_row [OF inv m] have "e_walker_id e1 \<in> w_id ` set (walkers s)" .
  from process_detection_matched_returns [OF m this] show ?thesis .
qed

lemma process_detection_matched_ids:
  assumes m: "match_to_walker cfg s now camera zone has_dog = Some m"
    and pd: "process_detection cfg s now now' camera zone path True has_dog pc dc = Inr (s', r)"
  shows "map w_id (walkers s') = map w_id (walkers s)"
proof -
  from pd obtain s1 w where rw: "resolve_walker cfg s now now' camera zone has_dog = Inr (s1, w)"
    and s': "s' = record_detection cfg now w camera zone path has_dog pc dc s1"
    by (rule process_detection_person)
  from s' resolve_walker_Some(2) [OF m rw]
  have w': "walkers s' =
      update_first (\<lambda>w. w_id w = m) (\<lambda>w. w\<lparr>w_last_seen := now\<rparr>) (walkers s)"
    by simp
  show ?thesis unfolding w' by (rule update_first_map_id) simp
qed

lemma exec_calls_final:
  "exec_calls cfg s cs = Inr (s', rs) \<Longrightarrow> final_state cfg s cs = Inr s'"
  by (simp add: final_state_def)

text \<open>
  The evidence lists of three short runs from a tracker that has just been constructed,
  and the fact that every state reached from it satisfies \<open>window_inv\<close>.
\<close>

lemma run_front_side:
  "map_sum id recent_detections
     (final_state example_config fresh_tracker [seen 0 ''front'' False, seen 1 ''side'' True]) =
   Inr [\<lparr>e_walker_id = 1, e_camera = ''front'', e_timestamp = seconds 0, e_has_dog = False\<rparr>,
        \<lparr>e_walker_id = 2, e_camera = ''side'', e_timestamp = seconds 1, e_has_dog = True\<rparr>]"
  by (simp add: run_defs)

lemma run_front_front_dog:
  "map_sum id recent_detections
     (final_state example_config fresh_tracker [seen 0 ''front'' False, seen 30 ''front'' True]) =
   Inr [\<lparr>e_walker_id = 1, e_camera = ''front'', e_timestamp = seconds 0, e_has_dog = False\<rparr>,
        \<lparr>e_walker_id = 2, e_camera = ''front'', e_timestamp = seconds 30, e_has_dog = True\<rparr>]"
  by (simp add: run_defs)

lemma run_front_back:
  "map_sum id recent_detections
     (final_state example_config fresh_tracker [seen 0 ''front'' False, seen 5 ''back'' False]) =
   Inr [\<lparr>e_walker_id = 1, e_camera = ''front'', e_timestamp = seconds 0, e_has_dog = False\<rparr>,
        \<lparr>e_walker_id = 1, e_camera = ''back'', e_timestamp = seconds 5, e_has_dog = False\<rparr>]"
  by (simp add: run_defs)

lemma reached_state:
  assumes "map_sum id recent_detections (final_state cfg fresh_tracker cs) = Inr es"
  obtains s where "final_state cfg fresh_tracker cs = Inr s" and "window_inv s"
    and "recent_detections s = es"
proof -
  have "window_inv fresh_tracker"
    by (rule window_inv_empty) (simp add: fresh_tracker_def)
  from exec_calls_returns [OF this, of cfg cs] obtain s rs where
    run: "exec_calls cfg fresh_tracker cs = Inr (s, rs)" and inv: "window_inv s"
    by blast
  from exec_calls_final [OF run] have f: "final_state cfg fresh_tracker cs = Inr s" .
  with assms have "recent_detections s = es" by simp
  with f inv that show ?thesis by blast
qed

section \<open>Comma-separated name lists\<close>

lemma split_comma_plain: "CHR '','' \<notin> set x \<Longrightarrow> split_comma x = [x]"
  by (induction x) auto

lemma split_comma_append:
  "CHR '','' \<notin> set x \<Longrightarrow> split_comma (x @ CHR '','' # rest) = x # split_comma rest"
  by (induction x) auto

lemma split_comma_pieces: "p \<in> set (split_comma x) \<Longrightarrow> CHR '','' \<notin> set p"
  by (induction x arbitrary: p) (auto split: if_splits list.splits)

lemma split_join_comma:
  "xs \<noteq> [] \<Longrightarrow> \<forall>x \<in> set xs. CHR '','' \<notin> set x \<Longrightarrow> split_comma (join_comma xs) = xs"
proof (induction xs rule: join_comma.induct)
  case 1
  then show ?case by simp
next
  case (2 x)
  then show ?case by (simp add: split_comma_plain)
next
  case (3 x y ys)
  then show ?case by (simp add: split_comma_append)
qed

text \<open>
  What \<open>add_name\<close> stores, read back with \<open>split(',')\<close>: the names stored before and
  the new name, each once (for a name without a comma).
\<close>

lemma add_name_names:
  assumes "CHR '','' \<notin> set name"
  shows "set (split_comma (add_name old name)) =
           insert name (if old = [] then {} else set (split_comma old)) \<and>
         distinct (split_comma (add_name old name))"
proof -
  define pieces where "pieces = (if old \<noteq> [] then split_comma old else [])"
  define names where "names = remdups (rev pieces)"
  define out where "out = rev (if name \<in> set names then names else name # names)"
  have add: "add_name old name = join_comma out"
    by (simp add: add_name_def Let_def pieces_def names_def out_def)
  have plain: "\<forall>x \<in> set pieces. CHR '','' \<notin> set x"
    by (auto simp: pieces_def dest: split_comma_pieces)
  have set_out: "set out = insert name (set pieces)"
    by (auto simp: out_def names_def)
  have dist: "distinct out"
    by (simp add: out_def names_def)
  from set_out have "out \<noteq> []" by auto
  moreover from set_out plain assms have "\<forall>x \<in> set out. CHR '','' \<notin> set x" by simp
  ultimately have "split_comma (join_comma out) = out" by (rule split_join_comma)
  with add set_out dist show ?thesis by (simp add: pieces_def)
qed

lemma update_first_const:
  "find P xs = Some a \<Longrightarrow> update_first P f xs = update_first P (\<lambda>_. f a) xs"
  by (induction xs) (auto split: if_splits)

lemma update_walk_session_open:
  assumes "find (is_open_for v) (walk_sessions t) = Some a"
  shows "walk_sessions (update_walk_session now v camera path dog t) =
           update_first (is_open_for v)
             (\<lambda>_. a\<lparr>ws_cameras_visited := add_name (ws_cameras_visited a) camera,
                     ws_paths_taken := add_name (ws_paths_taken a) path,
                     ws_has_dog := (ws_has_dog a \<or> dog)\<rparr>)
             (walk_sessions t)"
proof -
  from assms have "walk_sessions (update_walk_session now v camera path dog t) =
      update_first (is_open_for v)
        (\<lambda>a. a\<lparr>ws_cameras_visited := add_name (ws_cameras_visited a) camera,
                ws_paths_taken := add_name (ws_paths_taken a) path,
                ws_has_dog := (ws_has_dog a \<or> dog)\<rparr>)
        (walk_sessions t)"
    by (simp add: update_walk_session_def)
  also have "\<dots> = update_first (is_open_for v)
             (\<lambda>_. a\<lparr>ws_cameras_visited := add_name (ws_cameras_visited a) camera,
                     ws_paths_taken := add_name (ws_paths_taken a) path,
                     ws_has_dog := (ws_has_dog a \<or> dog)\<rparr>)
             (walk_sessions t)"
    using assms by (rule update_first_const)
  finally show ?thesis .
qed

lemma update_walk_session_closed:
  assumes "find (is_open_for v) (walk_sessions t) = None"
  shows "walk_sessions (update_walk_session now v camera path dog t) =
           walk_sessions t @
             [\<lparr>ws_id = next_id (map ws_id (walk_sessions t)), ws_walker_id = v,
               ws_start_time = now, ws_end_time = None, ws_cameras_visited = camera,
               ws_paths_taken = path, ws_has_dog = dog\<rparr>]"
  using assms by (simp add: update_walk_session_def)

section \<open>The identity matcher: verified claims\<close>

text \<open>
  Claim C8 (window expiry). When more than the cross-camera window has elapsed since every
  entry of the evidence list, no entry matches: \<open>process_detection\<close> returns an id that
  no walker row had before, and the walker table afterwards is the old one with one row
  appended that has this id. Whatever the state, the id returned by a processed detection
  has a walker row afterwards, and the evidence list afterwards is the old list with the
  new entry appended, without the entries older than \<open>now\<close> minus the window: no
  remaining entry is older than that. When a second detection arrives after all the
  evidence left by the first has expired, it returns an id that differs from the id of
  the first, that no walker row had before and that has a walker row afterwards.
\<close>

theorem window_expiry:
  "((\<forall>e \<in> set (recent_detections s).
        seconds (cross_camera_window cfg) < now - e_timestamp e) \<longrightarrow>
      match_to_walker cfg s now camera zone has_dog = None \<and>
      next_id (map w_id (walkers s)) \<notin> w_id ` set (walkers s) \<and>
      (\<exists>s'. process_detection cfg s now now' camera zone path True has_dog pc dc =
               Inr (s', Some (next_id (map w_id (walkers s)))) \<and>
             walkers s' = walkers s @
               [\<lparr>w_id = next_id (map w_id (walkers s)), w_first_seen = now,
                 w_last_seen = now', w_total_walks = 1\<rparr>])) \<and>
   (\<forall>s' r. process_detection cfg s now now' camera zone path True has_dog pc dc = Inr (s', r) \<longrightarrow>
      (\<forall>e \<in> set (recent_detections s').
          \<not> e_timestamp e < now - seconds (cross_camera_window cfg)) \<and>
      (\<exists>w. r = Some w \<and> w \<in> w_id ` set (walkers s') \<and>
           recent_detections s' =
             filter (\<lambda>e. \<not> e_timestamp e < now - seconds (cross_camera_window cfg))
               (recent_detections s @
                  [\<lparr>e_walker_id = w, e_camera = camera, e_timestamp = now,
                    e_has_dog = has_dog\<rparr>]))) \<and>
   (\<forall>s1 w1. process_detection cfg s now now' camera zone path True has_dog pc dc =
        Inr (s1, Some w1) \<and>
      (\<forall>e \<in> set (recent_detections s1).
          seconds (cross_camera_window cfg) < t2 - e_timestamp e) \<longrightarrow>
      next_id (map w_id (walkers s1)) \<noteq> w1 \<and>
      (\<exists>s2. process_detection cfg s1 t2 t2' cam2 z2 p2 True dog2 pc2 dc2 =
          Inr (s2, Some (next_id (map w_id (walkers s1)))) \<and>
          next_id (map w_id (walkers s1)) \<in> w_id ` set (walkers s2)))"
proof (intro conjI impI allI)
  assume stale: "\<forall>e \<in> set (recent_detections s).
        seconds (cross_camera_window cfg) < now - e_timestamp e"
  then have "\<forall>e \<in> set (rev (recent_detections s)).
        e_timestamp e < now - seconds (cross_camera_window cfg)"
    by auto
  then show none: "match_to_walker cfg s now camera zone has_dog = None"
    unfolding match_to_walker_def by (rule match_scan_all_stale)
  from process_detection_fresh_returns [OF none]
  show "\<exists>s'. process_detection cfg s now now' camera zone path True has_dog pc dc =
               Inr (s', Some (next_id (map w_id (walkers s)))) \<and>
             walkers s' = walkers s @
               [\<lparr>w_id = next_id (map w_id (walkers s)), w_first_seen = now,
                 w_last_seen = now', w_total_walks = 1\<rparr>]" .
next
  show "next_id (map w_id (walkers s)) \<notin> w_id ` set (walkers s)"
    using next_id_fresh [of "map w_id (walkers s)"] by simp
next
  fix s' r
  assume pd: "process_detection cfg s now now' camera zone path True has_dog pc dc = Inr (s', r)"
  from process_detection_result [OF pd] obtain w where r: "r = Some w"
    and row: "w \<in> w_id ` set (walkers s')"
    and rec: "recent_detections s' =
             filter (\<lambda>d. now - seconds (cross_camera_window cfg) \<le> e_timestamp d)
               (recent_detections s @
                  [\<lparr>e_walker_id = w, e_camera = camera, e_timestamp = now,
                    e_has_dog = has_dog\<rparr>])"
    by blast
  show "\<forall>e \<in> set (recent_detections s').
          \<not> e_timestamp e < now - seconds (cross_camera_window cfg)"
    unfolding rec by auto
  from r row rec
  show "\<exists>w. r = Some w \<and> w \<in> w_id ` set (walkers s') \<and>
           recent_detections s' =
             filter (\<lambda>e. \<not> e_timestamp e < now - seconds (cross_camera_window cfg))
               (recent_detections s @
                  [\<lparr>e_walker_id = w, e_camera = camera, e_timestamp = now,
                    e_has_dog = has_dog\<rparr>])"
    by (auto simp: not_less)
next
  fix s1 w1
  assume a: "process_detection cfg s now now' camera zone path True has_dog pc dc =
        Inr (s1, Some w1) \<and>
      (\<forall>e \<in> set (recent_detections s1).
          seconds (cross_camera_window cfg) < t2 - e_timestamp e)"
  then have pd1: "process_detection cfg s now now' camera zone path True has_dog pc dc =
        Inr (s1, Some w1)"
    and stale: "\<forall>e \<in> set (recent_detections s1).
          seconds (cross_camera_window cfg) < t2 - e_timestamp e"
    by simp_all
  from process_detection_result [OF pd1] have row1: "w1 \<in> w_id ` set (walkers s1)" by simp
  from stale have "\<forall>e \<in> set (rev (recent_detections s1)).
        e_timestamp e < t2 - seconds (cross_camera_window cfg)"
    by auto
  then have none: "match_to_walker cfg s1 t2 cam2 z2 dog2 = None"
    unfolding match_to_walker_def by (rule match_scan_all_stale)
  let ?w2 = "next_id (map w_id (walkers s1))"
  from process_detection_fresh_returns [OF none] obtain s2 where
    pd2: "process_detection cfg s1 t2 t2' cam2 z2 p2 True dog2 pc2 dc2 = Inr (s2, Some ?w2)"
    and w2: "walkers s2 = walkers s1 @
      [\<lparr>w_id = ?w2, w_first_seen = t2, w_last_seen = t2', w_total_walks = 1\<rparr>]"
    by blast
  have fresh: "?w2 \<notin> w_id ` set (walkers s1)"
    using next_id_fresh [of "map w_id (walkers s1)"] by simp
  with row1 show "?w2 \<noteq> w1" by blast
  from w2 have "?w2 \<in> w_id ` set (walkers s2)" by simp
  with pd2 show "\<exists>s2. process_detection cfg s1 t2 t2' cam2 z2 p2 True dog2 pc2 dc2 =
          Inr (s2, Some ?w2) \<and> ?w2 \<in> w_id ` set (walkers s2)"
    by blast
qed

theorem window_expiry_witness:
  "list_all (\<lambda>e. seconds (cross_camera_window example_config) < seconds 400 - e_timestamp e)
     (recent_detections after_first) \<and>
   match_to_walker example_config after_first (seconds 400) ''front'' ''zone'' False = None \<and>
   (\<exists>s'. process_detection example_config after_first (seconds 400) (seconds 400) ''front''
            ''zone'' ''path'' True False (1 / 2) (1 / 2) = Inr (s', Some 2) \<and>
         map w_id (walkers s') = [1, 2] \<and>
         recent_detections s' =
           [\<lparr>e_walker_id = 2, e_camera = ''front'', e_timestamp = seconds 400,
             e_has_dog = False\<rparr>] \<and>
         (\<exists>s''. process_detection example_config s' (seconds 800) (seconds 800) ''front''
            ''zone'' ''path'' True False (1 / 2) (1 / 2) = Inr (s'', Some 3)))"
proof -
  have h: "\<forall>e \<in> set (recent_detections after_first).
       seconds (cross_camera_window example_config) < seconds 400 - e_timestamp e"
    by (simp add: after_first_def example_config_def seconds_def)
  note n = next_id_after_first
  note t = window_expiry [of after_first example_config "seconds 400" "''front''" "''zone''"
      False "seconds 400" "''path''" "1 / 2" "1 / 2" "seconds 800" "seconds 800" "''front''"
      "''zone''" "''path''" False "1 / 2" "1 / 2"]
  note c1 = t [THEN conjunct1, THEN mp, OF h]
  from c1 have none:
    "match_to_walker example_config after_first (seconds 400) ''front'' ''zone'' False = None"
    by (rule conjunct1)
  from c1 [THEN conjunct2, THEN conjunct2] obtain s' where
    pd: "process_detection example_config after_first (seconds 400)
      (seconds 400) ''front'' ''zone'' ''path'' True False (1 / 2) (1 / 2) = Inr (s', Some 2)"
    and ws: "walkers s' = walkers after_first @
      [\<lparr>w_id = 2, w_first_seen = seconds 400, w_last_seen = seconds 400, w_total_walks = 1\<rparr>]"
    unfolding n by (elim exE conjE)
  from ws have ids: "map w_id (walkers s') = [1, 2]" by (simp add: after_first_def)
  from t [THEN conjunct2, THEN conjunct1, THEN spec, THEN spec, THEN mp, OF pd]
  obtain w where w: "Some 2 = Some w" and rec0: "recent_detections s' =
        filter (\<lambda>e. \<not> e_timestamp e < seconds 400 - seconds (cross_camera_window example_config))
          (recent_detections after_first @
             [\<lparr>e_walker_id = w, e_camera = ''front'', e_timestamp = seconds 400,
               e_has_dog = False\<rparr>])"
    by (elim exE conjE)
  from w have "w = 2" by simp
  with rec0 have rec: "recent_detections s' =
      [\<lparr>e_walker_id = 2, e_camera = ''front'', e_timestamp = seconds 400, e_has_dog = False\<rparr>]"
    by (simp add: after_first_def example_config_def seconds_def)
  then have stale: "\<forall>e \<in> set (recent_detections s').
      seconds (cross_camera_window example_config) < seconds 800 - e_timestamp e"
    by (simp add: example_config_def seconds_def)
  from ids have n3: "next_id (map w_id (walkers s')) = 3" by (simp add: next_id_def)
  from t [THEN conjunct2, THEN conjunct2, THEN spec, THEN spec, THEN mp, OF conjI [OF pd stale],
      THEN conjunct2]
  obtain s'' where
    pd2: "process_detection example_config s' (seconds 800) (seconds 800) ''front''
            ''zone'' ''path'' True False (1 / 2) (1 / 2) = Inr (s'', Some 3)"
    unfolding n3 by (elim exE conjE)
  then have later: "\<exists>s''. process_detection example_config s' (seconds 800) (seconds 800)
      ''front'' ''zone'' ''path'' True False (1 / 2) (1 / 2) = Inr (s'', Some 3)"
    by (rule exI)
  have run: "\<exists>s'. process_detection example_config after_first
      (seconds 400) (seconds 400) ''front'' ''zone'' ''path'' True False (1 / 2) (1 / 2) =
        Inr (s', Some 2) \<and>
      map w_id (walkers s') = [1, 2] \<and>
      recent_detections s' =
        [\<lparr>e_walker_id = 2, e_camera = ''front'', e_timestamp = seconds 400,
          e_has_dog = False\<rparr>] \<and>
      (\<exists>s''. process_detection example_config s' (seconds 800) (seconds 800) ''front''
         ''zone'' ''path'' True False (1 / 2) (1 / 2) = Inr (s'', Some 3))"
    by (rule exI, rule conjI, rule pd, rule conjI, rule ids, rule conjI, rule rec, rule later)
  from h have all: "list_all
      (\<lambda>e. seconds (cross_camera_window example_config) < seconds 400 - e_timestamp e)
      (recent_detections after_first)"
    unfolding list_all_iff .
  show ?thesis by (rule conjI, rule all, rule conjI, rule none, rule run)
qed

text \<open>
  Claim C7 (dog-status override). In a tracker whose evidence list satisfies
  \<open>window_inv\<close> (as it does from construction on), two detections processed one after
  the other with opposite dog-presence flags both return a walker id, and the two ids
  differ, whatever the cameras and the times. Entries whose dog flag differs from the
  detection's play no part in the match: removing them leaves the result unchanged.
\<close>

theorem dog_status_override:
  assumes inv: "window_inv s" and flags: "dog1 \<noteq> dog2"
  shows "(\<exists>s1 w1 s2 w2.
            process_detection cfg s t1 t1' cam1 z1 p1 True dog1 pc1 dc1 = Inr (s1, Some w1) \<and>
            process_detection cfg s1 t2 t2' cam2 z2 p2 True dog2 pc2 dc2 = Inr (s2, Some w2) \<and>
            w1 \<noteq> w2) \<and>
         match_to_walker cfg s t2 cam2 z2 dog2 =
           match_to_walker cfg
             (s\<lparr>recent_detections := filter (\<lambda>e. e_has_dog e = dog2) (recent_detections s)\<rparr>)
             t2 cam2 z2 dog2"
proof
  from window_inv_returns [OF inv] obtain s1 w1 where
    pd1: "process_detection cfg s t1 t1' cam1 z1 p1 True dog1 pc1 dc1 = Inr (s1, Some w1)"
    by blast
  note inv1 = window_inv_process_detection [OF inv pd1]
  from window_inv_returns [OF inv1(1)] obtain s2 w2 where
    pd2: "process_detection cfg s1 t2 t2' cam2 z2 p2 True dog2 pc2 dc2 = Inr (s2, Some w2)"
    by blast
  from process_detection_result [OF pd1] have row1: "w1 \<in> w_id ` set (walkers s1)" by simp
  from process_detection_result [OF pd2] have
    m2: "(case match_to_walker cfg s1 t2 cam2 z2 dog2 of
              Some m \<Rightarrow> w2 = m
            | None \<Rightarrow> w2 = next_id (map w_id (walkers s1)))"
    by simp
  have "w1 \<noteq> w2"
  proof (cases "match_to_walker cfg s1 t2 cam2 z2 dog2")
    case None
    with m2 have "w2 = next_id (map w_id (walkers s1))" by simp
    moreover from row1 have "w1 \<in> set (map w_id (walkers s1))" by simp
    ultimately show ?thesis using next_id_fresh by metis
  next
    case (Some m)
    with m2 have "w2 = m" by simp
    with match_to_walker_Some [OF Some] obtain e where
      e: "e \<in> set (recent_detections s1)" "e_walker_id e = w2" "e_has_dog e = dog2"
      by blast
    show ?thesis
    proof
      assume "w1 = w2"
      with e inv1(2) have "e_has_dog e = dog1" by simp
      with e flags show False by simp
    qed
  qed
  with pd1 pd2 show "\<exists>s1 w1 s2 w2.
            process_detection cfg s t1 t1' cam1 z1 p1 True dog1 pc1 dc1 = Inr (s1, Some w1) \<and>
            process_detection cfg s1 t2 t2' cam2 z2 p2 True dog2 pc2 dc2 = Inr (s2, Some w2) \<and>
            w1 \<noteq> w2"
    by blast
next
  show "match_to_walker cfg s t2 cam2 z2 dog2 =
           match_to_walker cfg
             (s\<lparr>recent_detections := filter (\<lambda>e. e_has_dog e = dog2) (recent_detections s)\<rparr>)
             t2 cam2 z2 dog2"
    by (simp add: match_to_walker_def rev_filter match_scan_same_flag)
qed

theorem dog_status_override_witness:
  "window_inv after_first \<and> False \<noteq> True \<and>
   (\<exists>s1 w1 s2 w2.
      process_detection example_config after_first (seconds 5) (seconds 5) ''back'' ''zone'' ''path''
        True False (1 / 2) (1 / 2) = Inr (s1, Some w1) \<and>
      process_detection example_config s1 (seconds 6) (seconds 6) ''back'' ''zone'' ''path''
        True True (1 / 2) (1 / 2) = Inr (s2, Some w2) \<and>
      w1 \<noteq> w2)"
proof -
  have h: "window_inv after_first"
    by (simp add: window_inv_def after_first_def)
  have d: "False \<noteq> True" by simp
  from dog_status_override [OF h d] h d show ?thesis by blast
qed

text \<open>
  The debounce property as the specification states it fails: on a tracker that has just
  been constructed, a person at the front camera and the same camera again five seconds
  later are given the walker ids 1 and 2.
\<close>

theorem same_camera_debounce_counterexample:
  "returned example_config fresh_tracker [seen 0 ''front'' False, seen 5 ''front'' False] =
     Inr [Some 1, Some 2]"
  by (simp add: run_defs)

text \<open>
  Claim C1 (debounce), as the code has it. Let the evidence list satisfy \<open>window_inv\<close>,
  as it does from construction on. An entry of the camera of the detection that is at
  most 60 seconds old is skipped by the scan: removing all such entries leaves the match
  unchanged, so the entry of a detection \<open>d1\<close> on the same camera less than 60 seconds
  before \<open>d2\<close> has no part in the id of \<open>d2\<close>. The match is the walker id of the newest
  accepted entry: one within the window, with the dog flag of \<open>d2\<close>, and of another
  camera or more than 60 seconds old. When there is one, \<open>process_detection\<close> returns
  its walker id (which is the id of \<open>d1\<close> when \<open>d1\<close> was itself matched to that
  walker) and creates no walker. When there is none, in particular when every entry is
  skipped, it returns a new id that no walker row had, so not the id of \<open>d1\<close>, and
  appends a walker row with that id. When \<open>d1\<close> was processed on an empty evidence list
  and \<open>d2\<close> follows on the same camera with the same dog flag less than 60 seconds
  later, nothing matches and the id of \<open>d2\<close> differs from the id of \<open>d1\<close>.
\<close>

theorem same_camera_debounce:
  assumes inv: "window_inv s"
  shows "match_to_walker cfg s now camera zone has_dog =
           match_to_walker cfg
             (s\<lparr>recent_detections :=
                  filter (\<lambda>e. \<not> (e_camera e = camera \<and> now - e_timestamp e \<le> seconds 60))
                    (recent_detections s)\<rparr>)
             now camera zone has_dog \<and>
         match_to_walker cfg s now camera zone has_dog =
           map_option e_walker_id
             (find (\<lambda>e. now - e_timestamp e \<le> seconds (cross_camera_window cfg) \<and>
                        e_has_dog e = has_dog \<and>
                        (e_camera e \<noteq> camera \<or> seconds 60 < now - e_timestamp e))
                (rev (recent_detections s))) \<and>
         (\<forall>m. match_to_walker cfg s now camera zone has_dog = Some m \<longrightarrow>
            (\<exists>s'. process_detection cfg s now now' camera zone path True has_dog pc dc =
                    Inr (s', Some m) \<and>
                  map w_id (walkers s') = map w_id (walkers s)) \<and>
            (\<exists>e \<in> set (recent_detections s).
                e_walker_id e = m \<and> e_has_dog e = has_dog \<and>
                now - e_timestamp e \<le> seconds (cross_camera_window cfg) \<and>
                (e_camera e \<noteq> camera \<or> seconds 60 < now - e_timestamp e))) \<and>
         (match_to_walker cfg s now camera zone has_dog = None \<longrightarrow>
            next_id (map w_id (walkers s)) \<notin> w_id ` set (walkers s) \<and>
            (\<exists>s'. process_detection cfg s now now' camera zone path True has_dog pc dc =
                    Inr (s', Some (next_id (map w_id (walkers s)))) \<and>
                  walkers s' = walkers s @
                    [\<lparr>w_id = next_id (map w_id (walkers s)), w_first_seen = now,
                      w_last_seen = now', w_total_walks = 1\<rparr>])) \<and>
         ((\<forall>e \<in> set (recent_detections s).
              seconds (cross_camera_window cfg) < now - e_timestamp e \<or>
              e_has_dog e \<noteq> has_dog \<or>
              (e_camera e = camera \<and> now - e_timestamp e \<le> seconds 60)) \<longrightarrow>
            match_to_walker cfg s now camera zone has_dog = None) \<and>
         (process_detection cfg s0 t1 t1' camera z1 p1 True has_dog pc1 dc1 = Inr (s, r1) \<and>
          recent_detections s0 = [] \<and> now - t1 < seconds 60 \<longrightarrow>
            match_to_walker cfg s now camera zone has_dog = None \<and>
            r1 \<noteq> None \<and> r1 \<noteq> Some (next_id (map w_id (walkers s))))"
proof (intro conjI allI impI)
  have sel: "recent_detections (s\<lparr>recent_detections := es\<rparr>) = es" for es
    by simp
  show "match_to_walker cfg s now camera zone has_dog =
           match_to_walker cfg
             (s\<lparr>recent_detections :=
                  filter (\<lambda>e. \<not> (e_camera e = camera \<and> now - e_timestamp e \<le> seconds 60))
                    (recent_detections s)\<rparr>)
             now camera zone has_dog"
    by (simp only: match_to_walker_def sel rev_filter match_scan_debounced)
  have accept: "(\<lambda>e. \<not> e_timestamp e < now - seconds (cross_camera_window cfg) \<and>
              e_has_dog e = has_dog \<and>
              (e_camera e \<noteq> camera \<or> seconds 60 < now - e_timestamp e)) =
        (\<lambda>e. now - e_timestamp e \<le> seconds (cross_camera_window cfg) \<and>
              e_has_dog e = has_dog \<and>
              (e_camera e \<noteq> camera \<or> seconds 60 < now - e_timestamp e))"
    by (intro ext) auto
  show "match_to_walker cfg s now camera zone has_dog =
           map_option e_walker_id
             (find (\<lambda>e. now - e_timestamp e \<le> seconds (cross_camera_window cfg) \<and>
                        e_has_dog e = has_dog \<and>
                        (e_camera e \<noteq> camera \<or> seconds 60 < now - e_timestamp e))
                (rev (recent_detections s)))"
    by (simp only: match_to_walker_def match_scan_find accept)
next
  fix m assume m: "match_to_walker cfg s now camera zone has_dog = Some m"
  from match_to_walker_row [OF inv m] have "m \<in> w_id ` set (walkers s)" .
  from process_detection_matched_returns [OF m this] obtain s' where
    pd: "process_detection cfg s now now' camera zone path True has_dog pc dc = Inr (s', Some m)"
    by blast
  from process_detection_matched_ids [OF m pd]
  have "map w_id (walkers s') = map w_id (walkers s)" .
  with pd show "\<exists>s'. process_detection cfg s now now' camera zone path True has_dog pc dc =
                    Inr (s', Some m) \<and>
                  map w_id (walkers s') = map w_id (walkers s)"
    by blast
  from m have "match_scan now (now - seconds (cross_camera_window cfg)) camera has_dog
      (rev (recent_detections s)) = Some m"
    by (simp add: match_to_walker_def)
  from match_scan_Some [OF this]
  show "\<exists>e \<in> set (recent_detections s).
                e_walker_id e = m \<and> e_has_dog e = has_dog \<and>
                now - e_timestamp e \<le> seconds (cross_camera_window cfg) \<and>
                (e_camera e \<noteq> camera \<or> seconds 60 < now - e_timestamp e)"
    by auto
next
  show "next_id (map w_id (walkers s)) \<notin> w_id ` set (walkers s)"
    using next_id_fresh [of "map w_id (walkers s)"] by simp
next
  assume "match_to_walker cfg s now camera zone has_dog = None"
  then show "\<exists>s'. process_detection cfg s now now' camera zone path True has_dog pc dc =
                    Inr (s', Some (next_id (map w_id (walkers s)))) \<and>
                  walkers s' = walkers s @
                    [\<lparr>w_id = next_id (map w_id (walkers s)), w_first_seen = now,
                      w_last_seen = now', w_total_walks = 1\<rparr>]"
    by (rule process_detection_fresh_returns)
next
  assume "\<forall>e \<in> set (recent_detections s).
              seconds (cross_camera_window cfg) < now - e_timestamp e \<or>
              e_has_dog e \<noteq> has_dog \<or>
              (e_camera e = camera \<and> now - e_timestamp e \<le> seconds 60)"
  then have "\<forall>x \<in> set (rev (recent_detections s)).
      e_timestamp x < now - seconds (cross_camera_window cfg) \<or> e_has_dog x \<noteq> has_dog \<or>
      (e_camera x = camera \<and> now - e_timestamp x \<le> seconds 60)"
    by auto
  from match_scan_skip_prefix [OF this, of "[]"]
  show "match_to_walker cfg s now camera zone has_dog = None"
    by (simp add: match_to_walker_def)
next
  assume a: "process_detection cfg s0 t1 t1' camera z1 p1 True has_dog pc1 dc1 = Inr (s, r1) \<and>
          recent_detections s0 = [] \<and> now - t1 < seconds 60"
  then have pd1: "process_detection cfg s0 t1 t1' camera z1 p1 True has_dog pc1 dc1 = Inr (s, r1)"
    and e: "recent_detections s0 = []" and c: "now - t1 < seconds 60"
    by simp_all
  from process_detection_result [OF pd1] obtain w1 where r1: "r1 = Some w1"
    and row: "w1 \<in> w_id ` set (walkers s)"
    by blast
  from pd1 r1 have "rev (recent_detections s) =
           (if 0 \<le> seconds (cross_camera_window cfg)
            then [\<lparr>e_walker_id = w1, e_camera = camera, e_timestamp = t1, e_has_dog = has_dog\<rparr>]
            else []) @
           rev (filter (\<lambda>e. t1 - seconds (cross_camera_window cfg) \<le> e_timestamp e)
                  (recent_detections s0))"
    by (intro rev_recent_after) simp
  with c e show "match_to_walker cfg s now camera zone has_dog = None"
    by (simp add: match_to_walker_def)
  from r1 show "r1 \<noteq> None" by simp
  from row have "w1 \<in> set (map w_id (walkers s))" by simp
  with next_id_fresh have "next_id (map w_id (walkers s)) \<noteq> w1" by metis
  with r1 show "r1 \<noteq> Some (next_id (map w_id (walkers s)))" by simp
qed

theorem same_camera_debounce_witness:
  "(\<exists>s. final_state example_config fresh_tracker
           [seen 0 ''front'' False, seen 5 ''back'' False] = Inr s \<and>
        match_to_walker example_config s (seconds 10) ''front'' ''zone'' False = Some 1 \<and>
        (\<exists>s'. process_detection example_config s (seconds 10) (seconds 10) ''front'' ''zone''
                ''path'' True False (1 / 2) (1 / 2) = Inr (s', Some 1) \<and>
              map w_id (walkers s') = map w_id (walkers s))) \<and>
   match_to_walker example_config after_first (seconds 5) ''front'' ''zone'' False = None \<and>
   (\<exists>s'. process_detection example_config after_first (seconds 5) (seconds 5) ''front''
           ''zone'' ''path'' True False (1 / 2) (1 / 2) = Inr (s', Some 2)) \<and>
   next_id (map w_id (walkers after_first)) \<noteq> 1"
proof -
  from run_front_back obtain s where
    f: "final_state example_config fresh_tracker
          [seen 0 ''front'' False, seen 5 ''back'' False] = Inr s"
    and inv: "window_inv s"
    and rec: "recent_detections s =
      [\<lparr>e_walker_id = 1, e_camera = ''front'', e_timestamp = seconds 0, e_has_dog = False\<rparr>,
       \<lparr>e_walker_id = 1, e_camera = ''back'', e_timestamp = seconds 5, e_has_dog = False\<rparr>]"
    by (rule reached_state)
  from rec have m: "match_to_walker example_config s (seconds 10) ''front'' ''zone'' False =
      Some 1"
    by (simp add: match_to_walker_def example_config_def seconds_def)
  note t = same_camera_debounce [OF inv, of example_config "seconds 10" "''front''" "''zone''"
      False "seconds 10" "''path''" "1 / 2" "1 / 2"]
  from t [THEN conjunct2, THEN conjunct2, THEN conjunct1, THEN spec, THEN mp, OF m,
      THEN conjunct1]
  have "\<exists>s'. process_detection example_config s (seconds 10) (seconds 10) ''front''
      ''zone'' ''path'' True False (1 / 2) (1 / 2) = Inr (s', Some 1) \<and>
      map w_id (walkers s') = map w_id (walkers s)" .
  with f m have part1: "\<exists>s. final_state example_config fresh_tracker
           [seen 0 ''front'' False, seen 5 ''back'' False] = Inr s \<and>
        match_to_walker example_config s (seconds 10) ''front'' ''zone'' False = Some 1 \<and>
        (\<exists>s'. process_detection example_config s (seconds 10) (seconds 10) ''front'' ''zone''
                ''path'' True False (1 / 2) (1 / 2) = Inr (s', Some 1) \<and>
              map w_id (walkers s') = map w_id (walkers s))"
    by blast
  have c: "seconds 5 - seconds 0 < seconds 60" by (simp add: seconds_def)
  have e: "recent_detections fresh_tracker = []" by (simp add: fresh_tracker_def)
  note u = same_camera_debounce [OF window_inv_after_first, of example_config "seconds 5"
      "''front''" "''zone''" False "seconds 5" "''path''" "1 / 2" "1 / 2" fresh_tracker
      "seconds 0" "seconds 0" "''zone''" "''path''" "1 / 2" "1 / 2" "Some 1"]
  have sk: "\<forall>e \<in> set (recent_detections after_first).
      seconds (cross_camera_window example_config) < seconds 5 - e_timestamp e \<or>
      e_has_dog e \<noteq> False \<or>
      (e_camera e = ''front'' \<and> seconds 5 - e_timestamp e \<le> seconds 60)"
    by (simp add: after_first_def seconds_def)
  from u [THEN conjunct2, THEN conjunct2, THEN conjunct2, THEN conjunct2, THEN conjunct1,
      THEN mp, OF sk]
  have none:
    "match_to_walker example_config after_first (seconds 5) ''front'' ''zone'' False = None" .
  from u [THEN conjunct2, THEN conjunct2, THEN conjunct2, THEN conjunct2, THEN conjunct2,
      THEN mp, OF conjI [OF first_detection conjI [OF e c]]]
  have "Some 1 \<noteq> Some (next_id (map w_id (walkers after_first)))"
    by (elim conjE)
  then have other: "next_id (map w_id (walkers after_first)) \<noteq> 1" by simp
  from u [THEN conjunct2, THEN conjunct2, THEN conjunct2, THEN conjunct1, THEN mp, OF none]
  have "\<exists>s'. process_detection example_config after_first (seconds 5) (seconds 5)
      ''front'' ''zone'' ''path'' True False (1 / 2) (1 / 2) =
      Inr (s', Some (next_id (map w_id (walkers after_first))))"
    by blast
  then have "\<exists>s'. process_detection example_config after_first (seconds 5) (seconds 5)
      ''front'' ''zone'' ''path'' True False (1 / 2) (1 / 2) = Inr (s', Some 2)"
    unfolding next_id_after_first .
  with part1 none other show ?thesis by blast
qed

text \<open>
  The cross-camera property fails when a newer entry is accepted before the entry of the
  earlier detection is reached: front, front again a second later (a second identity, see
  C1), then back a second later. The first and the third are on different cameras, two
  seconds apart, and get the ids 1 and 2.
\<close>

theorem cross_camera_join_counterexample:
  "returned example_config fresh_tracker
     [seen 0 ''front'' False, seen 1 ''front'' False, seen 2 ''back'' False] =
     Inr [Some 1, Some 2, Some 2]"
  by (simp add: run_defs)

text \<open>
  Claim C3 (cross-camera join), as the code has it. A processed detection \<open>d1\<close> returns
  a walker id and, when the window is not negative, leaves as the newest evidence entry
  the one with that id, its camera, its time and its dog flag. Let \<open>e1\<close> be such an
  entry of an evidence list that satisfies \<open>window_inv\<close>, and let \<open>d2\<close> be a detection
  on another camera, with the dog flag of \<open>e1\<close>, at most the cross-camera window after
  it. If every entry recorded after \<open>e1\<close> is one the scan skips for \<open>d2\<close> (older than
  the window, or with the other dog flag, or of the camera of \<open>d2\<close> and at most 60
  seconds old), then \<open>d2\<close> returns the walker id of \<open>e1\<close>. There is no lower bound
  on the elapsed time. In particular this holds when \<open>d2\<close> is processed right after
  \<open>d1\<close>, when there is no newer entry.
\<close>

theorem cross_camera_join:
  assumes inv: "window_inv s"
    and split: "recent_detections s = older @ e1 # newer"
    and within: "now - e_timestamp e1 \<le> seconds (cross_camera_window cfg)"
    and flag: "e_has_dog e1 = has_dog"
    and cam: "e_camera e1 \<noteq> camera"
    and skipped: "\<forall>x \<in> set newer.
        seconds (cross_camera_window cfg) < now - e_timestamp x \<or> e_has_dog x \<noteq> has_dog \<or>
        (e_camera x = camera \<and> now - e_timestamp x \<le> seconds 60)"
  shows "(\<exists>s'. process_detection cfg s now now' camera zone path True has_dog pc dc =
            Inr (s', Some (e_walker_id e1))) \<and>
         (process_detection cfg s0 t1 t1' cam1 z1 p1 True dog1 pc1 dc1 = Inr (s1, r1) \<and>
          0 \<le> seconds (cross_camera_window cfg) \<longrightarrow>
            (\<exists>w1. r1 = Some w1 \<and>
               recent_detections s1 =
                 filter (\<lambda>e. t1 - seconds (cross_camera_window cfg) \<le> e_timestamp e)
                   (recent_detections s0) @
                 [\<lparr>e_walker_id = w1, e_camera = cam1, e_timestamp = t1,
                   e_has_dog = dog1\<rparr>])) \<and>
         (process_detection cfg s0 t1 t1' cam1 z1 p1 True dog1 pc1 dc1 = Inr (s1, r1) \<and>
          cam1 \<noteq> cam2 \<and> t1 \<le> t2 \<and> t2 - t1 \<le> seconds (cross_camera_window cfg) \<longrightarrow>
            r1 \<noteq> None \<and>
            (\<exists>s2. process_detection cfg s1 t2 t2' cam2 z2 p2 True dog1 pc2 dc2 = Inr (s2, r1)))"
proof (intro conjI impI)
  from cam have "e_camera e1 \<noteq> camera \<or> seconds 60 < now - e_timestamp e1" by simp
  from process_detection_skipping_newer [OF inv split within flag this skipped]
  show "\<exists>s'. process_detection cfg s now now' camera zone path True has_dog pc dc =
            Inr (s', Some (e_walker_id e1))" .
next
  assume b: "process_detection cfg s0 t1 t1' cam1 z1 p1 True dog1 pc1 dc1 = Inr (s1, r1) \<and>
          0 \<le> seconds (cross_camera_window cfg)"
  then have pd1: "process_detection cfg s0 t1 t1' cam1 z1 p1 True dog1 pc1 dc1 = Inr (s1, r1)"
    and win: "0 \<le> seconds (cross_camera_window cfg)"
    by simp_all
  from process_detection_result [OF pd1] obtain w1 where r1: "r1 = Some w1"
    and rec: "recent_detections s1 =
          filter (\<lambda>d. t1 - seconds (cross_camera_window cfg) \<le> e_timestamp d)
            (recent_detections s0 @
               [\<lparr>e_walker_id = w1, e_camera = cam1, e_timestamp = t1, e_has_dog = dog1\<rparr>])"
    by blast
  from rec win have "recent_detections s1 =
                 filter (\<lambda>e. t1 - seconds (cross_camera_window cfg) \<le> e_timestamp e)
                   (recent_detections s0) @
                 [\<lparr>e_walker_id = w1, e_camera = cam1, e_timestamp = t1,
                   e_has_dog = dog1\<rparr>]"
    by simp
  with r1 show "\<exists>w1. r1 = Some w1 \<and>
               recent_detections s1 =
                 filter (\<lambda>e. t1 - seconds (cross_camera_window cfg) \<le> e_timestamp e)
                   (recent_detections s0) @
                 [\<lparr>e_walker_id = w1, e_camera = cam1, e_timestamp = t1,
                   e_has_dog = dog1\<rparr>]"
    by blast
next
  assume a: "process_detection cfg s0 t1 t1' cam1 z1 p1 True dog1 pc1 dc1 = Inr (s1, r1) \<and>
          cam1 \<noteq> cam2 \<and> t1 \<le> t2 \<and> t2 - t1 \<le> seconds (cross_camera_window cfg)"
  then have pd1: "process_detection cfg s0 t1 t1' cam1 z1 p1 True dog1 pc1 dc1 = Inr (s1, r1)"
    and o: "t1 \<le> t2" and w: "t2 - t1 \<le> seconds (cross_camera_window cfg)"
    and c: "cam1 \<noteq> cam2 \<or> seconds 60 < t2 - t1"
    by simp_all
  note n = newest_entry_match [OF pd1 o w c]
  from n show "r1 \<noteq> None" by (rule conjunct1)
  from n show "\<exists>s2. process_detection cfg s1 t2 t2' cam2 z2 p2 True dog1 pc2 dc2 = Inr (s2, r1)"
    by (rule conjunct2)
qed

theorem cross_camera_join_witness:
  "(\<exists>s. final_state example_config fresh_tracker
          [seen 0 ''front'' False, seen 1 ''side'' True] = Inr s \<and>
       recent_detections s =
         [\<lparr>e_walker_id = 1, e_camera = ''front'', e_timestamp = seconds 0, e_has_dog = False\<rparr>,
          \<lparr>e_walker_id = 2, e_camera = ''side'', e_timestamp = seconds 1, e_has_dog = True\<rparr>] \<and>
       (\<exists>s'. process_detection example_config s (seconds 2) (seconds 2) ''back'' ''zone''
               ''path'' True False (1 / 2) (1 / 2) = Inr (s', Some 1))) \<and>
   returned example_config fresh_tracker
     [seen 0 ''front'' False, seen 1 ''side'' True, seen 2 ''back'' False] =
     Inr [Some 1, Some 2, Some 1] \<and>
   recent_detections after_first =
     [\<lparr>e_walker_id = 1, e_camera = ''front'', e_timestamp = seconds 0, e_has_dog = False\<rparr>] \<and>
   (\<exists>s2. process_detection example_config after_first (seconds 1) (seconds 1) ''back''
           ''zone'' ''path'' True False (1 / 2) (1 / 2) = Inr (s2, Some 1))"
proof -
  have r: "returned example_config fresh_tracker
         [seen 0 ''front'' False, seen 1 ''side'' True, seen 2 ''back'' False] =
         Inr [Some 1, Some 2, Some 1]"
    by (simp add: run_defs)
  let ?e1 = "\<lparr>e_walker_id = 1, e_camera = ''front'', e_timestamp = seconds 0, e_has_dog = False\<rparr>"
  let ?e2 = "\<lparr>e_walker_id = 2, e_camera = ''side'', e_timestamp = seconds 1, e_has_dog = True\<rparr>"
  from run_front_side obtain s where
    f: "final_state example_config fresh_tracker
          [seen 0 ''front'' False, seen 1 ''side'' True] = Inr s"
    and inv: "window_inv s" and rec: "recent_detections s = [?e1, ?e2]"
    by (rule reached_state)
  from rec have split: "recent_detections s = [] @ ?e1 # [?e2]" by simp
  have within: "seconds 2 - e_timestamp ?e1 \<le> seconds (cross_camera_window example_config)"
    by (simp add: seconds_def example_config_def)
  have flag: "e_has_dog ?e1 = False" by simp
  have cam: "e_camera ?e1 \<noteq> ''back''" by simp
  have skipped: "\<forall>x \<in> set [?e2].
        seconds (cross_camera_window example_config) < seconds 2 - e_timestamp x \<or>
        e_has_dog x \<noteq> False \<or>
        (e_camera x = ''back'' \<and> seconds 2 - e_timestamp x \<le> seconds 60)"
    by simp
  note t = cross_camera_join [OF inv split within flag cam skipped]
  from t [THEN conjunct1, of "seconds 2" "''zone''" "''path''" "1 / 2" "1 / 2"]
  have "\<exists>s'. process_detection example_config s (seconds 2) (seconds 2) ''back'' ''zone''
               ''path'' True False (1 / 2) (1 / 2) = Inr (s', Some 1)"
    by simp
  with f rec have general: "\<exists>s. final_state example_config fresh_tracker
          [seen 0 ''front'' False, seen 1 ''side'' True] = Inr s \<and>
       recent_detections s = [?e1, ?e2] \<and>
       (\<exists>s'. process_detection example_config s (seconds 2) (seconds 2) ''back'' ''zone''
               ''path'' True False (1 / 2) (1 / 2) = Inr (s', Some 1))"
    by blast
  have win: "0 \<le> seconds (cross_camera_window example_config)"
    by (simp add: seconds_def example_config_def)
  from t [THEN conjunct2, THEN conjunct1, THEN mp, OF conjI [OF first_detection win]]
  obtain w1 where w1: "Some (1::int) = Some w1"
    and ev: "recent_detections after_first =
      filter (\<lambda>e. seconds 0 - seconds (cross_camera_window example_config) \<le> e_timestamp e)
        (recent_detections fresh_tracker) @
      [\<lparr>e_walker_id = w1, e_camera = ''front'', e_timestamp = seconds 0, e_has_dog = False\<rparr>]"
    by (elim exE conjE)
  from w1 have "w1 = 1" by simp
  with ev have entry: "recent_detections after_first = [?e1]"
    by (simp add: fresh_tracker_def)
  have cams: "''front'' \<noteq> ''back''" by simp
  have le: "seconds 0 \<le> seconds 1" by (simp add: seconds_def)
  have w2: "seconds 1 - seconds 0 \<le> seconds (cross_camera_window example_config)"
    by (simp add: seconds_def example_config_def)
  from t [THEN conjunct2, THEN conjunct2, THEN mp,
      OF conjI [OF first_detection conjI [OF cams conjI [OF le w2]]]]
  have next_one: "\<exists>s2. process_detection example_config after_first (seconds 1) (seconds 1)
      ''back'' ''zone'' ''path'' True False (1 / 2) (1 / 2) = Inr (s2, Some 1)"
    by (rule conjunct2)
  show ?thesis
    by (rule conjI, rule general, rule conjI, rule r, rule conjI, rule entry, rule next_one)
qed

text \<open>
  The re-trigger property fails at exactly 60 seconds, where the comparison of the code is
  strict: front, and front again 60 seconds later, get the ids 1 and 2. It also fails when
  a newer entry is accepted before the entry of the earlier detection is reached: front
  at 0, 5 and 70 seconds gives the ids 1, 2 and 2.
\<close>

theorem same_camera_after_gap_counterexample:
  "returned example_config fresh_tracker [seen 0 ''front'' False, seen 60 ''front'' False] =
     Inr [Some 1, Some 2] \<and>
   returned example_config fresh_tracker
     [seen 0 ''front'' False, seen 5 ''front'' False, seen 70 ''front'' False] =
     Inr [Some 1, Some 2, Some 2]"
  by (simp add: run_defs)

text \<open>
  Claim C4 (re-trigger after a gap), as the code has it. A processed detection \<open>d1\<close>
  returns a walker id and, when the window is not negative, leaves as the newest evidence
  entry the one with that id, its camera, its time and its dog flag. Let \<open>e1\<close> be such
  an entry of an evidence list that satisfies \<open>window_inv\<close>, and let \<open>d2\<close> be a
  detection on the same camera, with the dog flag of \<open>e1\<close>, more than 60 seconds and at
  most the cross-camera window after it. If every entry recorded after \<open>e1\<close> is one the
  scan skips for \<open>d2\<close> (older than the window, or with the other dog flag, or of the
  same camera and at most 60 seconds old), then \<open>d2\<close> returns the walker id of \<open>e1\<close>.
  In particular this holds when \<open>d2\<close> is processed right after \<open>d1\<close>, when there is
  no newer entry.
\<close>

theorem same_camera_after_gap:
  assumes inv: "window_inv s"
    and split: "recent_detections s = older @ e1 # newer"
    and within: "now - e_timestamp e1 \<le> seconds (cross_camera_window cfg)"
    and flag: "e_has_dog e1 = has_dog"
    and cam: "e_camera e1 = camera"
    and gap: "seconds 60 < now - e_timestamp e1"
    and skipped: "\<forall>x \<in> set newer.
        seconds (cross_camera_window cfg) < now - e_timestamp x \<or> e_has_dog x \<noteq> has_dog \<or>
        (e_camera x = camera \<and> now - e_timestamp x \<le> seconds 60)"
  shows "(\<exists>s'. process_detection cfg s now now' camera zone path True has_dog pc dc =
            Inr (s', Some (e_walker_id e1))) \<and>
         (process_detection cfg s0 t1 t1' cam1 z1 p1 True dog1 pc1 dc1 = Inr (s1, r1) \<and>
          0 \<le> seconds (cross_camera_window cfg) \<longrightarrow>
            (\<exists>w1. r1 = Some w1 \<and>
               recent_detections s1 =
                 filter (\<lambda>e. t1 - seconds (cross_camera_window cfg) \<le> e_timestamp e)
                   (recent_detections s0) @
                 [\<lparr>e_walker_id = w1, e_camera = cam1, e_timestamp = t1,
                   e_has_dog = dog1\<rparr>])) \<and>
         (process_detection cfg s0 t1 t1' cam1 z1 p1 True dog1 pc1 dc1 = Inr (s1, r1) \<and>
          seconds 60 < t2 - t1 \<and> t2 - t1 \<le> seconds (cross_camera_window cfg) \<longrightarrow>
            r1 \<noteq> None \<and>
            (\<exists>s2. process_detection cfg s1 t2 t2' cam1 z2 p2 True dog1 pc2 dc2 = Inr (s2, r1)))"
proof (intro conjI impI)
  from gap have "e_camera e1 \<noteq> camera \<or> seconds 60 < now - e_timestamp e1" by simp
  from process_detection_skipping_newer [OF inv split within flag this skipped]
  show "\<exists>s'. process_detection cfg s now now' camera zone path True has_dog pc dc =
            Inr (s', Some (e_walker_id e1))" .
next
  assume b: "process_detection cfg s0 t1 t1' cam1 z1 p1 True dog1 pc1 dc1 = Inr (s1, r1) \<and>
          0 \<le> seconds (cross_camera_window cfg)"
  then have pd1: "process_detection cfg s0 t1 t1' cam1 z1 p1 True dog1 pc1 dc1 = Inr (s1, r1)"
    and win: "0 \<le> seconds (cross_camera_window cfg)"
    by simp_all
  from process_detection_result [OF pd1] obtain w1 where r1: "r1 = Some w1"
    and rec: "recent_detections s1 =
          filter (\<lambda>d. t1 - seconds (cross_camera_window cfg) \<le> e_timestamp d)
            (recent_detections s0 @
               [\<lparr>e_walker_id = w1, e_camera = cam1, e_timestamp = t1, e_has_dog = dog1\<rparr>])"
    by blast
  from rec win have "recent_detections s1 =
                 filter (\<lambda>e. t1 - seconds (cross_camera_window cfg) \<le> e_timestamp e)
                   (recent_detections s0) @
                 [\<lparr>e_walker_id = w1, e_camera = cam1, e_timestamp = t1,
                   e_has_dog = dog1\<rparr>]"
    by simp
  with r1 show "\<exists>w1. r1 = Some w1 \<and>
               recent_detections s1 =
                 filter (\<lambda>e. t1 - seconds (cross_camera_window cfg) \<le> e_timestamp e)
                   (recent_detections s0) @
                 [\<lparr>e_walker_id = w1, e_camera = cam1, e_timestamp = t1,
                   e_has_dog = dog1\<rparr>]"
    by blast
next
  assume a: "process_detection cfg s0 t1 t1' cam1 z1 p1 True dog1 pc1 dc1 = Inr (s1, r1) \<and>
          seconds 60 < t2 - t1 \<and> t2 - t1 \<le> seconds (cross_camera_window cfg)"
  then have pd1: "process_detection cfg s0 t1 t1' cam1 z1 p1 True dog1 pc1 dc1 = Inr (s1, r1)"
    and g: "seconds 60 < t2 - t1" and w: "t2 - t1 \<le> seconds (cross_camera_window cfg)"
    by simp_all
  from g seconds_60_pos have o: "t1 \<le> t2" by simp
  from g have c: "cam1 \<noteq> cam1 \<or> seconds 60 < t2 - t1" by simp
  note n = newest_entry_match [OF pd1 o w c]
  from n show "r1 \<noteq> None" by (rule conjunct1)
  from n show "\<exists>s2. process_detection cfg s1 t2 t2' cam1 z2 p2 True dog1 pc2 dc2 = Inr (s2, r1)"
    by (rule conjunct2)
qed

theorem same_camera_after_gap_witness:
  "(\<exists>s. final_state example_config fresh_tracker
          [seen 0 ''front'' False, seen 30 ''front'' True] = Inr s \<and>
       recent_detections s =
         [\<lparr>e_walker_id = 1, e_camera = ''front'', e_timestamp = seconds 0, e_has_dog = False\<rparr>,
          \<lparr>e_walker_id = 2, e_camera = ''front'', e_timestamp = seconds 30, e_has_dog = True\<rparr>] \<and>
       (\<exists>s'. process_detection example_config s (seconds 70) (seconds 70) ''front'' ''zone''
               ''path'' True False (1 / 2) (1 / 2) = Inr (s', Some 1))) \<and>
   returned example_config fresh_tracker
     [seen 0 ''front'' False, seen 30 ''front'' True, seen 70 ''front'' False] =
     Inr [Some 1, Some 2, Some 1] \<and>
   recent_detections after_first =
     [\<lparr>e_walker_id = 1, e_camera = ''front'', e_timestamp = seconds 0, e_has_dog = False\<rparr>] \<and>
   (\<exists>s2. process_detection example_config after_first (seconds 61) (seconds 61) ''front''
           ''zone'' ''path'' True False (1 / 2) (1 / 2) = Inr (s2, Some 1))"
proof -
  have r: "returned example_config fresh_tracker
         [seen 0 ''front'' False, seen 30 ''front'' True, seen 70 ''front'' False] =
         Inr [Some 1, Some 2, Some 1]"
    by (simp add: run_defs)
  let ?e1 = "\<lparr>e_walker_id = 1, e_camera = ''front'', e_timestamp = seconds 0, e_has_dog = False\<rparr>"
  let ?e2 = "\<lparr>e_walker_id = 2, e_camera = ''front'', e_timestamp = seconds 30, e_has_dog = True\<rparr>"
  from run_front_front_dog obtain s where
    f: "final_state example_config fresh_tracker
          [seen 0 ''front'' False, seen 30 ''front'' True] = Inr s"
    and inv: "window_inv s" and rec: "recent_detections s = [?e1, ?e2]"
    by (rule reached_state)
  from rec have split: "recent_detections s = [] @ ?e1 # [?e2]" by simp
  have within: "seconds 70 - e_timestamp ?e1 \<le> seconds (cross_camera_window example_config)"
    by (simp add: seconds_def example_config_def)
  have flag: "e_has_dog ?e1 = False" by simp
  have cam: "e_camera ?e1 = ''front''" by simp
  have gap: "seconds 60 < seconds 70 - e_timestamp ?e1" by (simp add: seconds_def)
  have skipped: "\<forall>x \<in> set [?e2].
        seconds (cross_camera_window example_config) < seconds 70 - e_timestamp x \<or>
        e_has_dog x \<noteq> False \<or>
        (e_camera x = ''front'' \<and> seconds 70 - e_timestamp x \<le> seconds 60)"
    by simp
  note t = same_camera_after_gap [OF inv split within flag cam gap skipped]
  from t [THEN conjunct1, of "seconds 70" "''zone''" "''path''" "1 / 2" "1 / 2"]
  have "\<exists>s'. process_detection example_config s (seconds 70) (seconds 70) ''front'' ''zone''
               ''path'' True False (1 / 2) (1 / 2) = Inr (s', Some 1)"
    by simp
  with f rec have general: "\<exists>s. final_state example_config fresh_tracker
          [seen 0 ''front'' False, seen 30 ''front'' True] = Inr s \<and>
       recent_detections s = [?e1, ?e2] \<and>
       (\<exists>s'. process_detection example_config s (seconds 70) (seconds 70) ''front'' ''zone''
               ''path'' True False (1 / 2) (1 / 2) = Inr (s', Some 1))"
    by blast
  have win: "0 \<le> seconds (cross_camera_window example_config)"
    by (simp add: seconds_def example_config_def)
  from t [THEN conjunct2, THEN conjunct1, THEN mp, OF conjI [OF first_detection win]]
  obtain w1 where w1: "Some (1::int) = Some w1"
    and ev: "recent_detections after_first =
      filter (\<lambda>e. seconds 0 - seconds (cross_camera_window example_config) \<le> e_timestamp e)
        (recent_detections fresh_tracker) @
      [\<lparr>e_walker_id = w1, e_camera = ''front'', e_timestamp = seconds 0, e_has_dog = False\<rparr>]"
    by (elim exE conjE)
  from w1 have "w1 = 1" by simp
  with ev have entry: "recent_detections after_first = [?e1]"
    by (simp add: fresh_tracker_def)
  have g2: "seconds 60 < seconds 61 - seconds 0" by (simp add: seconds_def)
  have w2: "seconds 61 - seconds 0 \<le> seconds (cross_camera_window example_config)"
    by (simp add: seconds_def example_config_def)
  from t [THEN conjunct2, THEN conjunct2, THEN mp,
      OF conjI [OF first_detection conjI [OF g2 w2]]]
  have next_one: "\<exists>s2. process_detection example_config after_first (seconds 61) (seconds 61)
      ''front'' ''zone'' ''path'' True False (1 / 2) (1 / 2) = Inr (s2, Some 1)"
    by (rule conjunct2)
  show ?thesis
    by (rule conjI, rule general, rule conjI, rule r, rule conjI, rule entry, rule next_one)
qed

section \<open>The walker table\<close>

text \<open>
  The walk count is not changed by a match: after a person at the front camera and, five
  seconds later, at the back camera, both detections have the walker id 1 and the walker
  row still has \<open>total_walks = 1\<close>; only \<open>last_seen\<close> has moved. And the two times of
  a new row come from two readings of the clock: when the clock has moved on between them
  (here by a microsecond) \<open>first_seen\<close> and \<open>last_seen\<close> differ.
\<close>

theorem walker_record_effects_counterexample:
  "returned example_config fresh_tracker [seen 0 ''front'' False, seen 5 ''back'' False] =
     Inr [Some 1, Some 1] \<and>
   map_sum id walkers (final_state example_config fresh_tracker [seen 0 ''front'' False]) =
     Inr [\<lparr>w_id = 1, w_first_seen = 0, w_last_seen = 0, w_total_walks = 1\<rparr>] \<and>
   map_sum id walkers
     (final_state example_config fresh_tracker
        [seen 0 ''front'' False, seen 5 ''back'' False]) =
     Inr [\<lparr>w_id = 1, w_first_seen = 0, w_last_seen = 5000000, w_total_walks = 1\<rparr>] \<and>
   map_sum id walkers
     (final_state example_config fresh_tracker
        [Process_detection 0 1 ''front'' ''zone'' ''path'' True False (1 / 2) (1 / 2)]) =
     Inr [\<lparr>w_id = 1, w_first_seen = 0, w_last_seen = 1, w_total_walks = 1\<rparr>]"
  by (simp add: run_defs)

text \<open>
  Claim C5 (effects on the walker table), as the code has it. When a detection with a
  person matches walker \<open>m\<close>, the first walker row with that id gets \<open>last_seen = now\<close>;
  the ids, the first-seen times and the walk counts of all rows are unchanged. When it
  matches nothing, one row is appended with an id no row had, \<open>first_seen\<close> the first
  and \<open>last_seen\<close> the second of two successive readings of the clock, and
  \<open>total_walks = 1\<close>. In a state that satisfies \<open>window_inv\<close> the call returns: a
  matched walker always has a row.
\<close>

theorem walker_record_effects:
  "(process_detection cfg s now now' camera zone path True has_dog pc dc = Inr (s', r) \<longrightarrow>
      (case match_to_walker cfg s now camera zone has_dog of
               Some m \<Rightarrow>
                 r = Some m \<and>
                 map w_id (walkers s') = map w_id (walkers s) \<and>
                 map w_first_seen (walkers s') = map w_first_seen (walkers s) \<and>
                 map w_total_walks (walkers s') = map w_total_walks (walkers s) \<and>
                 (\<exists>row. find (\<lambda>w. w_id w = m) (walkers s) = Some row \<and>
                        find (\<lambda>w. w_id w = m) (walkers s') = Some (row\<lparr>w_last_seen := now\<rparr>)) \<and>
                 walkers s' =
                   update_first (\<lambda>w. w_id w = m) (\<lambda>w. w\<lparr>w_last_seen := now\<rparr>) (walkers s)
             | None \<Rightarrow>
                 r = Some (next_id (map w_id (walkers s))) \<and>
                 next_id (map w_id (walkers s)) \<notin> w_id ` set (walkers s) \<and>
                 walkers s' = walkers s @
                   [\<lparr>w_id = next_id (map w_id (walkers s)), w_first_seen = now,
                     w_last_seen = now', w_total_walks = 1\<rparr>])) \<and>
   (window_inv s \<longrightarrow>
      (\<exists>s'' w. process_detection cfg s now now' camera zone path True has_dog pc dc =
         Inr (s'', Some w)))"
proof (intro conjI impI)
  assume "window_inv s"
  then show "\<exists>s'' w. process_detection cfg s now now' camera zone path True has_dog pc dc =
         Inr (s'', Some w)"
    by (rule window_inv_returns)
next
  assume pd: "process_detection cfg s now now' camera zone path True has_dog pc dc = Inr (s', r)"
  show "(case match_to_walker cfg s now camera zone has_dog of
              Some m \<Rightarrow>
                r = Some m \<and>
                map w_id (walkers s') = map w_id (walkers s) \<and>
                map w_first_seen (walkers s') = map w_first_seen (walkers s) \<and>
                map w_total_walks (walkers s') = map w_total_walks (walkers s) \<and>
                (\<exists>row. find (\<lambda>w. w_id w = m) (walkers s) = Some row \<and>
                       find (\<lambda>w. w_id w = m) (walkers s') = Some (row\<lparr>w_last_seen := now\<rparr>)) \<and>
                walkers s' =
                  update_first (\<lambda>w. w_id w = m) (\<lambda>w. w\<lparr>w_last_seen := now\<rparr>) (walkers s)
            | None \<Rightarrow>
                r = Some (next_id (map w_id (walkers s))) \<and>
                next_id (map w_id (walkers s)) \<notin> w_id ` set (walkers s) \<and>
                walkers s' = walkers s @
                  [\<lparr>w_id = next_id (map w_id (walkers s)), w_first_seen = now,
                    w_last_seen = now', w_total_walks = 1\<rparr>])"
  proof (cases "match_to_walker cfg s now camera zone has_dog")
    case None
    from pd obtain s1 w where rw: "resolve_walker cfg s now now' camera zone has_dog = Inr (s1, w)"
      and r: "r = Some w"
      and s': "s' = record_detection cfg now w camera zone path has_dog pc dc s1"
      by (rule process_detection_person)
    from rw resolve_walker_None [OF None] have "w = next_id (map w_id (walkers s))"
      and "walkers s1 = walkers s @
                  [\<lparr>w_id = next_id (map w_id (walkers s)), w_first_seen = now,
                    w_last_seen = now', w_total_walks = 1\<rparr>]"
      by auto
    with None r s' next_id_fresh [of "map w_id (walkers s)"] show ?thesis by simp
  next
    case (Some m)
    from pd obtain s1 w where rw: "resolve_walker cfg s now now' camera zone has_dog = Inr (s1, w)"
      and r: "r = Some w"
      and s': "s' = record_detection cfg now w camera zone path has_dog pc dc s1"
      by (rule process_detection_person)
    note f = resolve_walker_Some [OF Some rw]
    let ?upd = "\<lambda>w::walker. w\<lparr>w_last_seen := now\<rparr>"
    from s' f(2) have w': "walkers s' = update_first (\<lambda>w. w_id w = m) ?upd (walkers s)"
      by simp
    from f(3) obtain row where row: "find (\<lambda>w. w_id w = m) (walkers s) = Some row"
      by (cases "find (\<lambda>w. w_id w = m) (walkers s)") (auto simp: find_None_iff)
    have "find (\<lambda>w. w_id w = m) (walkers s') = Some (row\<lparr>w_last_seen := now\<rparr>)"
      unfolding w' by (simp add: find_update_first row)
    moreover have "map w_id (walkers s') = map w_id (walkers s)"
      unfolding w' by (rule update_first_map_id) simp
    moreover have "map w_first_seen (walkers s') = map w_first_seen (walkers s)"
      unfolding w' by (rule update_first_map_id) simp
    moreover have "map w_total_walks (walkers s') = map w_total_walks (walkers s)"
      unfolding w' by (rule update_first_map_id) simp
    ultimately show ?thesis using Some r f(1) w' row by simp
  qed
qed

theorem walker_record_effects_witness:
  "(\<exists>s'. process_detection example_config after_first (seconds 5) (seconds 5) ''back''
           ''zone'' ''path'' True False (1 / 2) (1 / 2) = Inr (s', Some 1) \<and>
         walkers s' =
           [\<lparr>w_id = 1, w_first_seen = 0, w_last_seen = seconds 5, w_total_walks = 1\<rparr>]) \<and>
   (\<exists>s'. process_detection example_config after_first (seconds 400) (seconds 401) ''back''
           ''zone'' ''path'' True False (1 / 2) (1 / 2) = Inr (s', Some 2) \<and>
         walkers s' =
           [\<lparr>w_id = 1, w_first_seen = 0, w_last_seen = 0, w_total_walks = 1\<rparr>,
            \<lparr>w_id = 2, w_first_seen = seconds 400, w_last_seen = seconds 401,
              w_total_walks = 1\<rparr>])"
proof -
  note inv = window_inv_after_first
  note t = walker_record_effects [of example_config after_first]
  from t [THEN conjunct2, rule_format, OF inv] obtain s' w where
    pd: "process_detection example_config after_first (seconds 5) (seconds 5) ''back''
           ''zone'' ''path'' True False (1 / 2) (1 / 2) = Inr (s', Some w)"
    by blast
  have m: "match_to_walker example_config after_first (seconds 5) ''back'' ''zone'' False =
      Some 1"
    by (simp add: match_to_walker_def after_first_def example_config_def seconds_def)
  from t [THEN conjunct1, rule_format, OF pd] have "w = 1" and
    "walkers s' = update_first (\<lambda>w. w_id w = 1) (\<lambda>w. w\<lparr>w_last_seen := seconds 5\<rparr>)
       (walkers after_first)"
    unfolding m by simp_all
  with pd have matched: "\<exists>s'. process_detection example_config after_first (seconds 5)
      (seconds 5) ''back'' ''zone'' ''path'' True False (1 / 2) (1 / 2) = Inr (s', Some 1) \<and>
      walkers s' =
        [\<lparr>w_id = 1, w_first_seen = 0, w_last_seen = seconds 5, w_total_walks = 1\<rparr>]"
    by (simp add: after_first_def)
  from t [THEN conjunct2, rule_format, OF inv] obtain s2 w2 where
    pd2: "process_detection example_config after_first (seconds 400) (seconds 401) ''back''
           ''zone'' ''path'' True False (1 / 2) (1 / 2) = Inr (s2, Some w2)"
    by blast
  have n: "match_to_walker example_config after_first (seconds 400) ''back'' ''zone'' False =
      None"
    by (simp add: match_to_walker_def after_first_def example_config_def seconds_def)
  from t [THEN conjunct1, rule_format, OF pd2] have "w2 = next_id (map w_id (walkers after_first))"
    and "walkers s2 = walkers after_first @
      [\<lparr>w_id = next_id (map w_id (walkers after_first)), w_first_seen = seconds 400,
        w_last_seen = seconds 401, w_total_walks = 1\<rparr>]"
    unfolding n by simp_all
  with pd2 have created: "\<exists>s'. process_detection example_config after_first (seconds 400)
      (seconds 401) ''back'' ''zone'' ''path'' True False (1 / 2) (1 / 2) = Inr (s', Some 2) \<and>
      walkers s' =
        [\<lparr>w_id = 1, w_first_seen = 0, w_last_seen = 0, w_total_walks = 1\<rparr>,
         \<lparr>w_id = 2, w_first_seen = seconds 400, w_last_seen = seconds 401,
           w_total_walks = 1\<rparr>]"
    by (simp add: next_id_after_first) (simp add: after_first_def)
  from matched created show ?thesis by (rule conjI)
qed

section \<open>Walk sessions: verified claims\<close>

text \<open>
  Claim C2 (session invariant). If a walker has at most one open session (null end time)
  in a state, it has at most one in every state reached from it by any sequence of
  \<open>process_detection\<close>, \<open>close_session\<close>, \<open>record_exit\<close> and \<open>save_walker_image\<close>
  calls. \<open>_update_walk_session\<close> adds a session row exactly when the walker has no open
  session, and then the walker has one: the row appended is open, starts \<open>now\<close> and
  holds the camera, the path and the dog flag of the detection. Otherwise no row is
  added and the first open row of the walker is updated in place, all other rows being
  left as they are: its camera list and its path list get the new name (for a name
  without a comma, the names read back are the old ones and the new one, each once), and
  its dog flag becomes the disjunction of the old flag and the flag of the detection.
\<close>

theorem one_open_session:
  assumes "open_count w s \<le> 1" and "exec_calls cfg s cs = Inr (s', rs)"
  shows "open_count w s' \<le> 1 \<and>
         open_count w (update_walk_session now v camera path dog t) =
           (if w = v \<and> open_count v t = 0 then 1 else open_count w t) \<and>
         length (walk_sessions (update_walk_session now v camera path dog t)) =
           (if open_count v t = 0 then Suc (length (walk_sessions t))
            else length (walk_sessions t)) \<and>
         (find (is_open_for v) (walk_sessions t) = None \<longrightarrow>
            walk_sessions (update_walk_session now v camera path dog t) =
              walk_sessions t @
                [\<lparr>ws_id = next_id (map ws_id (walk_sessions t)), ws_walker_id = v,
                  ws_start_time = now, ws_end_time = None, ws_cameras_visited = camera,
                  ws_paths_taken = path, ws_has_dog = dog\<rparr>]) \<and>
         (\<forall>a. find (is_open_for v) (walk_sessions t) = Some a \<longrightarrow>
            walk_sessions (update_walk_session now v camera path dog t) =
              update_first (is_open_for v)
                (\<lambda>_. a\<lparr>ws_cameras_visited := add_name (ws_cameras_visited a) camera,
                        ws_paths_taken := add_name (ws_paths_taken a) path,
                        ws_has_dog := (ws_has_dog a \<or> dog)\<rparr>)
                (walk_sessions t)) \<and>
         (CHR '','' \<notin> set name \<longrightarrow>
            set (split_comma (add_name old name)) =
              insert name (if old = [] then {} else set (split_comma old)) \<and>
            distinct (split_comma (add_name old name)))"
proof (intro conjI allI impI)
  from assms show "open_count w s' \<le> 1" by (rule open_count_exec_calls)
  show "open_count w (update_walk_session now v camera path dog t) =
           (if w = v \<and> open_count v t = 0 then 1 else open_count w t)"
    by (rule open_count_update_walk_session)
  show "length (walk_sessions (update_walk_session now v camera path dog t)) =
           (if open_count v t = 0 then Suc (length (walk_sessions t))
            else length (walk_sessions t))"
    using find_None_open_count [of v t]
    by (cases "find (is_open_for v) (walk_sessions t)") (auto simp: update_walk_session_def)
next
  assume "find (is_open_for v) (walk_sessions t) = None"
  then show "walk_sessions (update_walk_session now v camera path dog t) =
              walk_sessions t @
                [\<lparr>ws_id = next_id (map ws_id (walk_sessions t)), ws_walker_id = v,
                  ws_start_time = now, ws_end_time = None, ws_cameras_visited = camera,
                  ws_paths_taken = path, ws_has_dog = dog\<rparr>]"
    by (rule update_walk_session_closed)
next
  fix a assume "find (is_open_for v) (walk_sessions t) = Some a"
  then show "walk_sessions (update_walk_session now v camera path dog t) =
              update_first (is_open_for v)
                (\<lambda>_. a\<lparr>ws_cameras_visited := add_name (ws_cameras_visited a) camera,
                        ws_paths_taken := add_name (ws_paths_taken a) path,
                        ws_has_dog := (ws_has_dog a \<or> dog)\<rparr>)
                (walk_sessions t)"
    by (rule update_walk_session_open)
next
  assume c: "CHR '','' \<notin> set name"
  from add_name_names [OF c, of old]
  show "set (split_comma (add_name old name)) =
              insert name (if old = [] then {} else set (split_comma old))"
    by (rule conjunct1)
  from add_name_names [OF c, of old]
  show "distinct (split_comma (add_name old name))"
    by (rule conjunct2)
qed

theorem one_open_session_witness:
  "open_count 1 after_first \<le> 1 \<and>
   (\<exists>s' rs. exec_calls example_config after_first
      [seen 5 ''back'' False, Close_session (seconds 9) 1, Close_session (seconds 10) 1,
       seen 20 ''front'' False, seen 21 ''back'' False] = Inr (s', rs) \<and>
      open_count 1 s' \<le> 1) \<and>
   walk_sessions (update_walk_session (seconds 5) 1 ''back'' ''south'' True after_first) =
     [\<lparr>ws_id = 1, ws_walker_id = 1, ws_start_time = 0, ws_end_time = None,
       ws_cameras_visited = ''front,back'', ws_paths_taken = ''path,south'',
       ws_has_dog = True\<rparr>] \<and>
   walk_sessions (update_walk_session (seconds 5) 1 ''back'' ''south'' True fresh_tracker) =
     [\<lparr>ws_id = 1, ws_walker_id = 1, ws_start_time = seconds 5, ws_end_time = None,
       ws_cameras_visited = ''back'', ws_paths_taken = ''south'', ws_has_dog = True\<rparr>] \<and>
   set (split_comma (add_name ''front'' ''back'')) = {''back'', ''front''} \<and>
   distinct (split_comma (add_name ''front'' ''back''))"
proof -
  have h: "open_count 1 after_first \<le> 1"
    by (simp add: open_count_def after_first_def is_open_for_def)
  from exec_calls_returns [OF window_inv_after_first] obtain s' rs where
    run: "exec_calls example_config after_first
      [seen 5 ''back'' False, Close_session (seconds 9) 1, Close_session (seconds 10) 1,
       seen 20 ''front'' False, seen 21 ''back'' False] = Inr (s', rs)"
    by blast
  note t = one_open_session [OF h run, of "seconds 5" 1 "''back''" "''south''" True after_first]
  from t have "open_count 1 s' \<le> 1" by (rule conjunct1)
  with run have ex: "\<exists>s' rs. exec_calls example_config after_first
      [seen 5 ''back'' False, Close_session (seconds 9) 1, Close_session (seconds 10) 1,
       seen 20 ''front'' False, seen 21 ''back'' False] = Inr (s', rs) \<and>
      open_count 1 s' \<le> 1"
    by blast
  have f: "find (is_open_for 1) (walk_sessions after_first) =
      Some \<lparr>ws_id = 1, ws_walker_id = 1, ws_start_time = 0, ws_end_time = None,
        ws_cameras_visited = ''front'', ws_paths_taken = ''path'', ws_has_dog = False\<rparr>"
    by (simp add: after_first_def is_open_for_def)
  from t f have "walk_sessions (update_walk_session (seconds 5) 1 ''back'' ''south'' True
      after_first) =
      update_first (is_open_for 1)
        (\<lambda>_. \<lparr>ws_id = 1, ws_walker_id = 1, ws_start_time = 0, ws_end_time = None,
                ws_cameras_visited = ''front'', ws_paths_taken = ''path'', ws_has_dog = False\<rparr>
              \<lparr>ws_cameras_visited := add_name ''front'' ''back'',
                ws_paths_taken := add_name ''path'' ''south'',
                ws_has_dog := (False \<or> True)\<rparr>)
        (walk_sessions after_first)"
    by simp
  then have "walk_sessions (update_walk_session (seconds 5) 1 ''back'' ''south'' True
      after_first) =
     [\<lparr>ws_id = 1, ws_walker_id = 1, ws_start_time = 0, ws_end_time = None,
       ws_cameras_visited = ''front,back'', ws_paths_taken = ''path,south'',
       ws_has_dog = True\<rparr>]"
    by (simp add: after_first_def is_open_for_def add_name_def Let_def)
  note upd = this
  note t0 = one_open_session [OF h run, of "seconds 5" 1 "''back''" "''south''" True
      fresh_tracker "''back''" "''front''"]
  have f0: "find (is_open_for 1) (walk_sessions fresh_tracker) = None"
    by (simp add: fresh_tracker_def)
  from t0 [THEN conjunct2, THEN conjunct2, THEN conjunct2, THEN conjunct1, THEN mp, OF f0]
  have opened: "walk_sessions (update_walk_session (seconds 5) 1 ''back'' ''south'' True
      fresh_tracker) =
     [\<lparr>ws_id = 1, ws_walker_id = 1, ws_start_time = seconds 5, ws_end_time = None,
       ws_cameras_visited = ''back'', ws_paths_taken = ''south'', ws_has_dog = True\<rparr>]"
    by (simp add: fresh_tracker_def next_id_def)
  have nc: "CHR '','' \<notin> set ''back''" by simp
  from t0 [THEN conjunct2, THEN conjunct2, THEN conjunct2, THEN conjunct2, THEN conjunct2,
      THEN mp, OF nc]
  have names: "set (split_comma (add_name ''front'' ''back'')) =
      insert ''back'' (if ''front'' = [] then {} else set (split_comma ''front'')) \<and>
      distinct (split_comma (add_name ''front'' ''back''))" .
  have sc: "split_comma ''front'' = [''front'']" by (rule split_comma_plain) simp
  from names sc have n1: "set (split_comma (add_name ''front'' ''back'')) = {''back'', ''front''}"
    by simp
  from names have n2: "distinct (split_comma (add_name ''front'' ''back''))"
    by (rule conjunct2)
  show ?thesis
    by (rule conjI, rule h, rule conjI, rule ex, rule conjI, rule upd, rule conjI,
        rule opened, rule conjI, rule n1, rule n2)

qed

text \<open>
  Claim C9 (closing a session). \<open>close_session\<close> raises nothing and touches only the
  session table: the first open session of the walker, when there is one, gets the end
  time \<open>now\<close>, so the walker has one open session less and the other walkers as many as
  before. When the walker has no open session the state is unchanged; closing twice a
  walker that had at most one open session is the same as closing once.
\<close>

theorem close_session_tolerant:
  "walk_sessions (close_session now w s) =
     update_first (is_open_for w) (\<lambda>a. a\<lparr>ws_end_time := Some now\<rparr>) (walk_sessions s) \<and>
   walkers (close_session now w s) = walkers s \<and>
   detections (close_session now w s) = detections s \<and>
   walker_images (close_session now w s) = walker_images s \<and>
   files (close_session now w s) = files s \<and>
   recent_detections (close_session now w s) = recent_detections s \<and>
   open_count w' (close_session now w s) =
     (if w' = w then open_count w s - 1 else open_count w' s) \<and>
   (\<forall>a. find (is_open_for w) (walk_sessions s) = Some a \<longrightarrow>
        a\<lparr>ws_end_time := Some now\<rparr> \<in> set (walk_sessions (close_session now w s))) \<and>
   (open_count w s = 0 \<longrightarrow> close_session now w s = s) \<and>
   (open_count w s \<le> 1 \<longrightarrow>
      close_session now' w (close_session now w s) = close_session now w s)"
proof (intro conjI allI impI)
  show "walk_sessions (close_session now w s) =
     update_first (is_open_for w) (\<lambda>a. a\<lparr>ws_end_time := Some now\<rparr>) (walk_sessions s)"
    by (rule walk_sessions_close_session)
  show "open_count w' (close_session now w s) =
     (if w' = w then open_count w s - 1 else open_count w' s)"
    by (rule open_count_close_session)
next
  fix a assume "find (is_open_for w) (walk_sessions s) = Some a"
  then show "a\<lparr>ws_end_time := Some now\<rparr> \<in> set (walk_sessions (close_session now w s))"
    unfolding walk_sessions_close_session by (rule update_first_present)
next
  assume "open_count w s = 0"
  then show "close_session now w s = s" by (rule close_session_absent)
next
  assume "open_count w s \<le> 1"
  then have "open_count w (close_session now w s) = 0"
    by (simp add: open_count_close_session)
  then show "close_session now' w (close_session now w s) = close_session now w s"
    by (rule close_session_absent)
qed simp_all

theorem close_session_tolerant_witness:
  "open_count 1 after_first = 1 \<and> open_count 7 after_first = 0 \<and>
   map ws_end_time (walk_sessions (close_session (seconds 9) 1 after_first)) =
     [Some (seconds 9)] \<and>
   close_session (seconds 9) 7 after_first = after_first \<and>
   close_session (seconds 10) 1 (close_session (seconds 9) 1 after_first) =
     close_session (seconds 9) 1 after_first"
proof -
  have one: "open_count 1 after_first = 1" and none: "open_count 7 after_first = 0"
    by (simp_all add: open_count_def after_first_def is_open_for_def)
  note t = close_session_tolerant [of "seconds 9" _ after_first _ "seconds 10"]
  from t [of 1] have "walk_sessions (close_session (seconds 9) 1 after_first) =
     update_first (is_open_for 1) (\<lambda>a. a\<lparr>ws_end_time := Some (seconds 9)\<rparr>)
       (walk_sessions after_first)"
    by (rule conjunct1)
  then have ends: "map ws_end_time (walk_sessions (close_session (seconds 9) 1 after_first)) =
     [Some (seconds 9)]"
    by (simp add: after_first_def is_open_for_def)
  from t [of 7] none have absent: "close_session (seconds 9) 7 after_first = after_first"
    by blast
  from t [of 1] one have "close_session (seconds 10) 1 (close_session (seconds 9) 1 after_first) =
     close_session (seconds 9) 1 after_first"
    by simp
  with one none ends absent show ?thesis by blast
qed

section \<open>Image retention: verified claims\<close>

text \<open>
  Claim C6 (retention bound). Let the image keys be distinct (they are primary keys) and
  the configured maximum be non-negative. After \<open>save_walker_image\<close> for walker \<open>w\<close>,
  with \<open>ranked\<close> the images of \<open>w\<close> including the new one, ordered by quality descending
  and then timestamp descending: at most the maximum number of images of \<open>w\<close> are
  stored, and they are exactly the first ones of \<open>ranked\<close>; each of them has a higher
  quality than each evicted image, or the same quality and a timestamp at least as late;
  every evicted image has no row and no file left; exactly the files of the evicted
  images are removed; the rows of the other walkers are unchanged; the keys stay distinct.
\<close>

theorem retention_bound:
  assumes dist: "distinct (map i_id (walker_images s))" and m: "0 \<le> max_images_per_walker cfg"
  shows "let all_images = walker_images s @ [new_image s now w path ty cam q];
             ranked = sort_key image_rank (filter (\<lambda>i. i_walker_id i = w) all_images);
             n = nat (max_images_per_walker cfg);
             s' = save_walker_image cfg now w path ty cam q s
         in length (filter (\<lambda>i. i_walker_id i = w) (walker_images s')) \<le> n \<and>
            set (filter (\<lambda>i. i_walker_id i = w) (walker_images s')) = set (take n ranked) \<and>
            (\<forall>r \<in> set (take n ranked). \<forall>e \<in> set (drop n ranked).
                i_quality_score e < i_quality_score r \<or>
                (i_quality_score e = i_quality_score r \<and> i_timestamp e \<le> i_timestamp r)) \<and>
            (\<forall>e \<in> set (drop n ranked).
                e \<notin> set (walker_images s') \<and> i_image_path e \<notin> files s') \<and>
            files s' = files s - i_image_path ` set (drop n ranked) \<and>
            filter (\<lambda>i. i_walker_id i \<noteq> w) (walker_images s') =
              filter (\<lambda>i. i_walker_id i \<noteq> w) (walker_images s) \<and>
            distinct (map i_id (walker_images s'))"
proof -
  define all_images where "all_images = walker_images s @ [new_image s now w path ty cam q]"
  define ranked where
    "ranked = sort_key image_rank (filter (\<lambda>i. i_walker_id i = w) all_images)"
  define n where "n = nat (max_images_per_walker cfg)"
  define s' where "s' = save_walker_image cfg now w path ty cam q s"
  let ?F = "filter (\<lambda>i. i_walker_id i = w) all_images"
  let ?P = "\<lambda>i. i_id i \<notin> i_id ` set (drop n ranked)"
  note core = retention_core [OF dist m all_images_def ranked_def n_def s'_def]
  have mine: "filter (\<lambda>i. i_walker_id i = w) (walker_images s') = filter ?P ?F"
    unfolding core(1) by (auto intro: filter_cong)
  have ms: "mset ?F = mset ranked" by (simp add: ranked_def)
  have "length (filter ?P ?F) = length (filter ?P ranked)"
    using ms by (rule filter_mset_eq_length(1))
  with core(4) have len: "length (filter (\<lambda>i. i_walker_id i = w) (walker_images s')) \<le> n"
    unfolding mine by simp
  have "set (filter ?P ?F) = set (filter ?P ranked)"
    using ms by (rule filter_mset_eq_length(2))
  with core(4) have kept:
    "set (filter (\<lambda>i. i_walker_id i = w) (walker_images s')) = set (take n ranked)"
    unfolding mine by simp
  have srt: "sorted (map image_rank ranked)"
    unfolding ranked_def by (rule sorted_sort_key)
  have rank: "\<forall>r \<in> set (take n ranked). \<forall>e \<in> set (drop n ranked).
                i_quality_score e < i_quality_score r \<or>
                (i_quality_score e = i_quality_score r \<and> i_timestamp e \<le> i_timestamp r)"
    using sorted_take_drop [OF srt] by (simp flip: image_rank_le)
  have gone: "\<forall>e \<in> set (drop n ranked).
                e \<notin> set (walker_images s') \<and> i_image_path e \<notin> files s'"
    unfolding core(1) core(2) by auto
  from core(3) have "distinct (map i_id (walker_images s'))"
    unfolding core(1) by (rule distinct_map_filter)
  with len kept rank gone core(2) core(5) show ?thesis
    unfolding Let_def all_images_def [symmetric] ranked_def [symmetric] n_def [symmetric]
      s'_def [symmetric]
    by blast
qed

theorem retention_bound_witness:
  "distinct (map i_id (walker_images with_images)) \<and>
   0 \<le> max_images_per_walker example_config \<and>
   length (filter (\<lambda>i. i_walker_id i = 1)
     (walker_images (save_walker_image example_config (seconds 3) 1 ''d.jpg''
        ''person'' ''front'' (7 / 10) with_images))) \<le> 2 \<and>
   map i_id (walker_images (save_walker_image example_config (seconds 3) 1 ''d.jpg''
      ''person'' ''front'' (7 / 10) with_images)) = [2, 3, 4] \<and>
   files (save_walker_image example_config (seconds 3) 1 ''d.jpg''
      ''person'' ''front'' (7 / 10) with_images) = {''b.jpg'', ''c.jpg''}"
proof -
  have d: "distinct (map i_id (walker_images with_images))"
    by (simp add: with_images_def)
  have m: "0 \<le> max_images_per_walker example_config"
    by (simp add: example_config_def)
  have n: "nat (max_images_per_walker example_config) = 2"
    by (simp add: example_config_def)
  from retention_bound [OF d m, of "seconds 3" 1 "''d.jpg''" "''person''" "''front''" "7 / 10"]
  have "length (filter (\<lambda>i. i_walker_id i = 1)
     (walker_images (save_walker_image example_config (seconds 3) 1 ''d.jpg''
        ''person'' ''front'' (7 / 10) with_images))) \<le> 2"
    unfolding Let_def n by (rule conjunct1)
  with d m save_example show ?thesis by blast
qed

section \<open>The ingestion adapter: verified claims\<close>

text \<open>
  Claim C10 (the live path carries no dog). For a count event of a configured camera with
  object type person and a positive count that \<open>_process_detection\<close> handles without an
  exception, the tracker was called with a person, no dog, and the configured minimum
  confidence as person confidence: the detection row appended has \<open>has_dog = False\<close>,
  that confidence and no dog confidence, and the evidence entry appended has
  \<open>has_dog = False\<close>. Consequently a tracker without dog rows and dog entries has none
  after any sequence of events handled by the adapter.
\<close>

theorem live_path_no_dog:
  assumes cam: "cameras cfg camera = Some cc" and cnt: "0 < payload_count pl"
  shows "(app_process_detection cfg s now now' camera ''person'' pl frame = Inr s' \<longrightarrow>
          (\<exists>s1 w.
            process_detection cfg s now now' camera (cc_zone cc) (cc_path_name cc) True False
              (min_person_confidence cfg) 0 = Inr (s1, Some w) \<and>
            detections s' = detections s @
              [\<lparr>d_id = next_id (map d_id (detections s)), d_walker_id = w, d_camera = camera,
                d_zone = cc_zone cc, d_path_name = cc_path_name cc, d_timestamp = now,
                d_event_type = ''enter'', d_has_dog = False,
                d_person_confidence = Some (min_person_confidence cfg),
                d_dog_confidence = None\<rparr>] \<and>
            recent_detections s' =
              filter (\<lambda>e. now - seconds (cross_camera_window cfg) \<le> e_timestamp e)
                (recent_detections s @
                   [\<lparr>e_walker_id = w, e_camera = camera, e_timestamp = now,
                     e_has_dog = False\<rparr>]))) \<and>
         (window_inv s \<longrightarrow>
            (\<exists>s''. app_process_detection cfg s now now' camera ''person'' pl frame = Inr s'')) \<and>
         (no_dog t \<longrightarrow> no_dog (app_run cfg t evs))"
proof (intro conjI impI)
  assume run: "app_process_detection cfg s now now' camera ''person'' pl frame = Inr s'"
  from cam cnt run obtain s1 w where
    pd: "process_detection cfg s now now' camera (cc_zone cc) (cc_path_name cc) True False
       (min_person_confidence cfg) 0 = Inr (s1, Some w)"
    and d: "detections s' = detections s1" and e: "recent_detections s' = recent_detections s1"
    by (rule app_process_detection_accepted)
  from process_detection_detections [OF pd] process_detection_result [OF pd] pd
  show "\<exists>s1 w.
            process_detection cfg s now now' camera (cc_zone cc) (cc_path_name cc) True False
              (min_person_confidence cfg) 0 = Inr (s1, Some w) \<and>
            detections s' = detections s @
              [\<lparr>d_id = next_id (map d_id (detections s)), d_walker_id = w, d_camera = camera,
                d_zone = cc_zone cc, d_path_name = cc_path_name cc, d_timestamp = now,
                d_event_type = ''enter'', d_has_dog = False,
                d_person_confidence = Some (min_person_confidence cfg),
                d_dog_confidence = None\<rparr>] \<and>
            recent_detections s' =
              filter (\<lambda>e. now - seconds (cross_camera_window cfg) \<le> e_timestamp e)
                (recent_detections s @
                   [\<lparr>e_walker_id = w, e_camera = camera, e_timestamp = now,
                     e_has_dog = False\<rparr>])"
    unfolding d e by simp
next
  assume "window_inv s"
  then show "\<exists>s''. app_process_detection cfg s now now' camera ''person'' pl frame = Inr s''"
    by (rule app_process_detection_returns)
next
  assume "no_dog t"
  then show "no_dog (app_run cfg t evs)" by (rule no_dog_app_run)
qed

theorem live_path_no_dog_witness:
  "cameras example_config ''front'' = Some \<lparr>cc_zone = ''yard'', cc_path_name = ''north''\<rparr> \<and>
   0 < payload_count (PInt 2) \<and>
   (\<exists>s'. app_process_detection example_config fresh_tracker 0 0 ''front'' ''person'' (PInt 2)
            (Some ''f.jpg'') = Inr s' \<and>
         map d_has_dog (detections s') = [False] \<and>
         map d_person_confidence (detections s') = [Some (1 / 2)] \<and>
         map e_has_dog (recent_detections s') = [False])"
proof -
  have cam: "cameras example_config ''front'' =
      Some \<lparr>cc_zone = ''yard'', cc_path_name = ''north''\<rparr>"
    by (simp add: example_config_def)
  have cnt: "0 < payload_count (PInt 2)" by (simp add: payload_count_def)
  have inv: "window_inv fresh_tracker"
    by (rule window_inv_empty) (simp add: fresh_tracker_def)
  note t = live_path_no_dog [OF cam cnt, of fresh_tracker 0 0 "Some ''f.jpg''"]
  from t [THEN conjunct2, THEN conjunct1, rule_format, OF inv] obtain s' where
    run: "app_process_detection example_config fresh_tracker 0 0 ''front'' ''person'' (PInt 2)
            (Some ''f.jpg'') = Inr s'"
    by blast
  from t [THEN conjunct1, rule_format, OF run] obtain s1 w where
    d: "detections s' = detections fresh_tracker @
       [\<lparr>d_id = next_id (map d_id (detections fresh_tracker)), d_walker_id = w,
         d_camera = ''front'',
         d_zone = cc_zone \<lparr>cc_zone = ''yard'', cc_path_name = ''north''\<rparr>,
         d_path_name = cc_path_name \<lparr>cc_zone = ''yard'', cc_path_name = ''north''\<rparr>,
         d_timestamp = 0, d_event_type = ''enter'', d_has_dog = False,
         d_person_confidence = Some (min_person_confidence example_config),
         d_dog_confidence = None\<rparr>]"
    and e: "recent_detections s' =
       filter (\<lambda>e. 0 - seconds (cross_camera_window example_config) \<le> e_timestamp e)
         (recent_detections fresh_tracker @
            [\<lparr>e_walker_id = w, e_camera = ''front'', e_timestamp = 0, e_has_dog = False\<rparr>])"
    by (elim exE conjE)
  from d have d1: "map d_has_dog (detections s') = [False]"
    by (simp add: fresh_tracker_def)
  from d have d2: "map d_person_confidence (detections s') = [Some (1 / 2)]"
    by (simp add: fresh_tracker_def example_config_def)
  from e have e1: "map e_has_dog (recent_detections s') = [False]"
    by (simp add: fresh_tracker_def example_config_def seconds_def)
  from run d1 d2 e1 have "\<exists>s'. app_process_detection example_config fresh_tracker 0 0 ''front''
         ''person'' (PInt 2) (Some ''f.jpg'') = Inr s' \<and>
         map d_has_dog (detections s') = [False] \<and>
         map d_person_confidence (detections s') = [Some (1 / 2)] \<and>
         map e_has_dog (recent_detections s') = [False]"
    by (intro exI [of _ s'] conjI)
  with cam cnt show ?thesis by (intro conjI)
qed

end
